theory Spec2Isabelle
  imports Complex_Main
begin

section \<open>Values of the host language\<close>

text \<open>
  The calculation engine (class \<open>ProductionCalculationEngine\<close>) stores and computes
  JavaScript values. Numbers are modelled as exact rationals plus the two infinities
  (\<open>JInf True\<close> is \<open>Infinity\<close>, \<open>JInf False\<close> is \<open>-Infinity\<close>) and \<open>NaN\<close>; this is
  the idealisation of IEEE doubles that is exact on the integers below \<open>2^53\<close> in magnitude
  and on the dyadic fractions the statements below are evaluated at; zero carries no sign.
  Objects are association lists in property order.
\<close>

datatype jsval =
    JNum rat
  | JInf bool
  | JNaN
  | JStr string
  | JBool bool
  | JNull
  | JUndef
  | JArr "jsval list"
  | JObj "(string \<times> jsval) list"

datatype js_exn = SyntaxError | ReferenceError | TypeError | OtherError


text \<open>\<open>typeof v === 'number' && !isNaN(v)\<close>, the test used by the aggregation
  functions, by \<open>evaluateRange\<close> and by \<open>getVal\<close>.\<close>

fun isNumeric :: "jsval \<Rightarrow> bool" where
  "isNumeric (JNum q) = True"
| "isNumeric (JInf b) = True"
| "isNumeric v = False"

text \<open>Truthiness, as used by \<open>&&\<close>, \<open>||\<close> and the conditional operator.\<close>

fun truthy :: "jsval \<Rightarrow> bool" where
  "truthy (JNum q) = (q \<noteq> 0)"
| "truthy (JInf b) = True"
| "truthy JNaN = False"
| "truthy (JStr s) = (s \<noteq> [])"
| "truthy (JBool b) = b"
| "truthy JNull = False"
| "truthy JUndef = False"
| "truthy (JArr xs) = True"
| "truthy (JObj ps) = True"

text \<open>\<open>v !== undefined && v !== null\<close>\<close>

fun isPresent :: "jsval \<Rightarrow> bool" where
  "isPresent JUndef = False"
| "isPresent JNull = False"
| "isPresent v = True"

text \<open>
  What the engine takes from the JavaScript runtime and does not define itself:
  \<open>eval\<close> on the rewritten formula text (an exception is \<open>Inl\<close>), the decimal
  rendering of a number that is not an integer below \<open>2^53\<close>, and the numeric coercion
  of strings, arrays and objects. The expression handed to \<open>eval\<close> is assumed to be a
  pure, terminating computation, as spreadsheet formulas are.
\<close>

record runtime =
  rt_eval :: "string \<Rightarrow> js_exn + jsval"
  rt_fmt :: "rat \<Rightarrow> string"
  rt_coerce :: "jsval \<Rightarrow> jsval"

text \<open>\<open>ToNumber\<close>: defined on the primitives, delegated to the runtime otherwise.\<close>

fun toNumber :: "runtime \<Rightarrow> jsval \<Rightarrow> jsval" where
  "toNumber rt (JNum q) = JNum q"
| "toNumber rt (JInf b) = JInf b"
| "toNumber rt JNaN = JNaN"
| "toNumber rt (JBool b) = JNum (if b then 1 else 0)"
| "toNumber rt JNull = JNum 0"
| "toNumber rt JUndef = JNaN"
| "toNumber rt v =
     (case rt_coerce rt v of JNum q \<Rightarrow> JNum q | JInf b \<Rightarrow> JInf b | _ \<Rightarrow> JNaN)"

text \<open>\<open>v > k\<close> for a numeric literal \<open>k\<close>: false whenever \<open>v\<close> coerces to \<open>NaN\<close>.\<close>

definition jsGreater :: "runtime \<Rightarrow> jsval \<Rightarrow> rat \<Rightarrow> bool" where
  "jsGreater rt v k = (case toNumber rt v of JNum q \<Rightarrow> q > k | JInf b \<Rightarrow> b | _ \<Rightarrow> False)"

text \<open>\<open>v / 100\<close>\<close>

definition jsDiv100 :: "runtime \<Rightarrow> jsval \<Rightarrow> jsval" where
  "jsDiv100 rt v =
     (case toNumber rt v of JNum q \<Rightarrow> JNum (q / 100) | JInf b \<Rightarrow> JInf b | _ \<Rightarrow> JNaN)"

text \<open>\<open>1 + (v / 100)\<close>\<close>

definition jsOnePlusDiv100 :: "runtime \<Rightarrow> jsval \<Rightarrow> jsval" where
  "jsOnePlusDiv100 rt v =
     (case jsDiv100 rt v of JNum q \<Rightarrow> JNum (1 + q) | JInf b \<Rightarrow> JInf b | _ \<Rightarrow> JNaN)"

subsection \<open>Numbers as text\<close>

function decimal :: "nat \<Rightarrow> string" where
  "decimal n = (if n < 10 then [''0123456789'' ! n]
                else decimal (n div 10) @ [''0123456789'' ! (n mod 10)])"
  by pat_completeness auto
termination
  by (relation "measure id") auto

declare decimal.simps [simp del]

text \<open>\<open>String(q)\<close> for a finite number: integers below \<open>2^53\<close> in magnitude print as
  their decimal digits; every other number (a fraction, or a larger integer, of which
  JavaScript prints the shortest digits that read back as the same double) is rendered by
  the runtime.\<close>

definition numToString :: "runtime \<Rightarrow> rat \<Rightarrow> string" where
  "numToString rt q =
     (if q = of_int \<lfloor>q\<rfloor> \<and> \<bar>q\<bar> < 2 ^ 53
      then (if q < 0 then ''-'' else '''') @ decimal (nat \<bar>\<lfloor>q\<rfloor>\<bar>)
      else rt_fmt rt q)"

text \<open>\<open>parseInt\<close> on a run of decimal digits (the only arguments it receives here): the
  number that the digits denote. JavaScript returns the nearest double, which is that
  number when it is below \<open>2^53\<close>.\<close>

definition digitVal :: "char \<Rightarrow> nat" where
  "digitVal c = (of_char c - 48)"

definition parseInt :: "string \<Rightarrow> nat" where
  "parseInt ds = foldl (\<lambda>n c. 10 * n + digitVal c) 0 ds"

fun intercalate :: "string \<Rightarrow> string list \<Rightarrow> string" where
  "intercalate sep [] = []"
| "intercalate sep [x] = x"
| "intercalate sep (x # y # ys) = x @ sep @ intercalate sep (y # ys)"

text \<open>\<open>JSON.stringify\<close> of an array of numbers: an infinity prints as \<open>null\<close> (and so
  would \<open>NaN\<close>).\<close>

definition jsonNumber :: "runtime \<Rightarrow> jsval \<Rightarrow> string" where
  "jsonNumber rt v = (case v of JNum q \<Rightarrow> numToString rt q | _ \<Rightarrow> ''null'')"

definition jsonNumbers :: "runtime \<Rightarrow> jsval list \<Rightarrow> string" where
  "jsonNumbers rt vs = ''['' @ intercalate '','' (map (jsonNumber rt) vs) @ '']''"

section \<open>Function library (\<open>excelFunctions\<close>)\<close>

text \<open>Of the nine functions, those that the statements below reach: \<open>SUM\<close>, \<open>IF\<close> and
  \<open>ROUND\<close>. \<open>SUM\<close> carries the suffix \<open>_fn\<close>: the bare name is binder syntax of HOL.\<close>

text \<open>\<open>args.flat()\<close>: one level of array nesting is removed.\<close>

fun flat :: "jsval list \<Rightarrow> jsval list" where
  "flat [] = []"
| "flat (JArr xs # rest) = xs @ flat rest"
| "flat (v # rest) = v # flat rest"

text \<open>\<open>.filter(v => typeof v === 'number' && !isNaN(v))\<close>\<close>

definition numbersOf :: "jsval list \<Rightarrow> jsval list" where
  "numbersOf vs = filter isNumeric vs"

text \<open>\<open>sum + n\<close> on two numbers: the infinities absorb every finite number, two
  opposite infinities and everything else give \<open>NaN\<close>.\<close>

fun numAdd :: "jsval \<Rightarrow> jsval \<Rightarrow> jsval" where
  "numAdd (JNum a) (JNum b) = JNum (a + b)"
| "numAdd (JInf s) (JInf t) = (if s = t then JInf s else JNaN)"
| "numAdd (JInf s) (JNum b) = JInf s"
| "numAdd (JNum a) (JInf t) = JInf t"
| "numAdd v w = JNaN"

definition SUM_fn :: "jsval list \<Rightarrow> jsval" where
  "SUM_fn args = foldl numAdd (JNum 0) (numbersOf (flat args))"

definition IF :: "jsval \<Rightarrow> jsval \<Rightarrow> jsval \<Rightarrow> jsval" where
  "IF condition trueValue falseValue = (if truthy condition then trueValue else falseValue)"

text \<open>\<open>Math.round\<close>: the nearest integer, a tie going towards \<open>+\<infinity>\<close>.\<close>

definition mathRound :: "rat \<Rightarrow> rat" where
  "mathRound x = of_int \<lfloor>x + 1 / 2\<rfloor>"

text \<open>\<open>ROUND(number, decimals)\<close> on a number and an integer digit count.\<close>

definition ROUND :: "rat \<Rightarrow> int \<Rightarrow> rat" where
  "ROUND number decimals =
     (if decimals = 0 then mathRound number
      else let factor = 10 ^ nat \<bar>decimals\<bar>
           in if decimals < 0 then mathRound (number / factor) * factor
              else mathRound (number * factor) / factor)"

section \<open>Cell store\<close>

text \<open>
  The engine object: \<open>calculatedCells\<close> is the \<open>Map\<close> from keys to values,
  \<open>processing\<close> the \<open>Set\<close> of cell keys under evaluation.
\<close>

record engine =
  calculatedCells :: "string \<rightharpoonup> jsval"
  processing :: "string set"

definition newEngine :: engine where
  "newEngine = \<lparr> calculatedCells = Map.empty, processing = {} \<rparr>"

definition cellKey :: "string \<Rightarrow> string \<Rightarrow> string" where
  "cellKey sheetName cell = sheetName @ ''!'' @ cell"

definition setCellValue :: "engine \<Rightarrow> string \<Rightarrow> string \<Rightarrow> jsval \<Rightarrow> engine" where
  "setCellValue e sheetName cell v =
     e\<lparr> calculatedCells := (calculatedCells e)(cellKey sheetName cell \<mapsto> v, cell \<mapsto> v) \<rparr>"

definition getCellValue :: "engine \<Rightarrow> string \<Rightarrow> string \<Rightarrow> jsval" where
  "getCellValue e sheetName cell =
     (case calculatedCells e (cellKey sheetName cell) of
        Some v \<Rightarrow> v
      | None \<Rightarrow> (case calculatedCells e cell of Some v \<Rightarrow> v | None \<Rightarrow> JNum 0))"

section \<open>Regular-expression scanning\<close>

text \<open>
  The character classes of the three patterns: \<open>[A-Z]\<close>, \<open>\d\<close>, the word characters
  that decide \<open>\b\<close>, and \<open>[A-Za-z0-9_\.]\<close>.
\<close>

definition isUpper :: "char \<Rightarrow> bool" where
  "isUpper c = (c \<in> set ''ABCDEFGHIJKLMNOPQRSTUVWXYZ'')"

definition isLower :: "char \<Rightarrow> bool" where
  "isLower c = (c \<in> set ''abcdefghijklmnopqrstuvwxyz'')"

definition isDigit :: "char \<Rightarrow> bool" where
  "isDigit c = (c \<in> set ''0123456789'')"

definition isWordChar :: "char \<Rightarrow> bool" where
  "isWordChar c = (isUpper c \<or> isLower c \<or> isDigit c \<or> c = CHR ''_'')"

definition isSheetChar :: "char \<Rightarrow> bool" where
  "isSheetChar c = (isWordChar c \<or> c = CHR ''.'')"

text \<open>
  \<open>String.prototype.replace\<close> with a global pattern none of whose matches is empty.
  A pattern is a function that, given the character before the current position and the
  text from the current position on, returns the matched text and its capture groups.
  The scan takes the leftmost match, appends what the callback returns for it, and goes
  on behind the match; where nothing matches, the character is copied.
\<close>

type_synonym pattern = "char option \<Rightarrow> string \<Rightarrow> (string \<times> string list) option"

function gsub :: "pattern \<Rightarrow> (string list \<Rightarrow> string) \<Rightarrow> char option \<Rightarrow> string \<Rightarrow> string" where
  "gsub p f prev [] = []"
| "gsub p f prev (c # cs) =
     (case p prev (c # cs) of
        None \<Rightarrow> c # gsub p f (Some c) cs
      | Some (m, groups) \<Rightarrow>
          if m = [] then c # gsub p f (Some c) cs
          else f groups @ gsub p f (Some (last m)) (drop (length m) (c # cs)))"
  by pat_completeness auto
termination
  by (relation "measure (\<lambda>(p, f, prev, s). length s)") auto

text \<open>The capture groups of the successive matches, in the order in which the scan of
  \<open>gsub\<close> meets them.\<close>

function matchGroups :: "pattern \<Rightarrow> char option \<Rightarrow> string \<Rightarrow> string list list" where
  "matchGroups p prev [] = []"
| "matchGroups p prev (c # cs) =
     (case p prev (c # cs) of
        None \<Rightarrow> matchGroups p (Some c) cs
      | Some (m, groups) \<Rightarrow>
          if m = [] then matchGroups p (Some c) cs
          else groups # matchGroups p (Some (last m)) (drop (length m) (c # cs)))"
  by pat_completeness auto
termination
  by (relation "measure (\<lambda>(p, prev, s). length s)") auto

text \<open>\<open>[A-Z]+\d+\<close> at the start of the text: column letters, row digits, the rest.
  Both runs are greedy, and no shorter run can match, the two classes being disjoint.\<close>

definition matchCellAt :: "string \<Rightarrow> (string \<times> string \<times> string) option" where
  "matchCellAt s =
     (let col = takeWhile isUpper s; r = dropWhile isUpper s;
          row = takeWhile isDigit r; rest = dropWhile isDigit r
      in if col = [] \<or> row = [] then None else Some (col, row, rest))"

text \<open>\<open>/([A-Z]+)(\d+):([A-Z]+)(\d+)/g\<close>\<close>

definition rangePattern :: pattern where
  "rangePattern prev s =
     (case matchCellAt s of
        None \<Rightarrow> None
      | Some (startCol, startRow, r) \<Rightarrow>
          (case r of
             [] \<Rightarrow> None
           | c # r' \<Rightarrow>
               if c \<noteq> CHR '':'' then None
               else (case matchCellAt r' of
                       None \<Rightarrow> None
                     | Some (endCol, endRow, rest) \<Rightarrow>
                         Some (startCol @ startRow @ '':'' @ endCol @ endRow,
                               [startCol, startRow, endCol, endRow]))))"

text \<open>\<open>/([A-Za-z0-9_\.]+)!([A-Z]+\d+)/g\<close>\<close>

definition qualifiedPattern :: pattern where
  "qualifiedPattern prev s =
     (let sheet = takeWhile isSheetChar s; r = dropWhile isSheetChar s
      in if sheet = [] then None
         else (case r of
                 [] \<Rightarrow> None
               | c # r' \<Rightarrow>
                   if c \<noteq> CHR ''!'' then None
                   else (case matchCellAt r' of
                           None \<Rightarrow> None
                         | Some (col, row, rest) \<Rightarrow>
                             Some (sheet @ ''!'' @ col @ row, [sheet, col @ row]))))"

text \<open>\<open>/\b([A-Z]+\d+)\b/g\<close>: a word boundary on both sides of the reference.\<close>

definition barePattern :: pattern where
  "barePattern prev s =
     (if (case prev of None \<Rightarrow> False | Some c \<Rightarrow> isWordChar c) then None
      else (case matchCellAt s of
              None \<Rightarrow> None
            | Some (col, row, rest) \<Rightarrow>
                if rest \<noteq> [] \<and> isWordChar (hd rest) then None
                else Some (col @ row, [col @ row])))"

text \<open>A literal pattern such as \<open>/SUM\(/g\<close>.\<close>

definition literalPattern :: "string \<Rightarrow> pattern" where
  "literalPattern lit prev s = (if take (length lit) s = lit then Some (lit, []) else None)"

text \<open>\<open>str.match(/([A-Z]+)(\d+)/)\<close>: the leftmost match anywhere in the text.\<close>

fun findCell :: "string \<Rightarrow> (string \<times> string) option" where
  "findCell [] = None"
| "findCell (c # cs) =
     (case matchCellAt (c # cs) of
        Some (col, row, rest) \<Rightarrow> Some (col, row)
      | None \<Rightarrow> findCell cs)"

section \<open>Reference and range resolution\<close>

text \<open>
  The loop of \<open>evaluateRange\<close>: rows \<open>row, row + 1, ..., endRow\<close> of one column. The rows
  are natural numbers here. The code counts them in doubles, which are the natural numbers
  as long as the end row is below \<open>2^53\<close>; from \<open>2^53\<close> on, \<open>row++\<close> leaves \<open>row\<close> as it
  is and the loop of the code does not end. The statements below that concern ranges are
  made for end rows below \<open>2^53\<close> (\<open>boundedRanges\<close>).
\<close>

function rangeLoop :: "engine \<Rightarrow> string \<Rightarrow> string \<Rightarrow> nat \<Rightarrow> nat \<Rightarrow> jsval list \<Rightarrow> jsval list" where
  "rangeLoop e sheetName startCol row endRow values =
     (if row \<le> endRow
      then rangeLoop e sheetName startCol (row + 1) endRow
             (if isNumeric (getCellValue e sheetName (startCol @ decimal row))
              then values @ [getCellValue e sheetName (startCol @ decimal row)]
              else values)
      else values)"
  by pat_completeness auto
termination
  by (relation "measure (\<lambda>(e, sheetName, startCol, row, endRow, values). Suc endRow - row)") auto

declare rangeLoop.simps [simp del]

definition evaluateRange :: "engine \<Rightarrow> string \<Rightarrow> string \<Rightarrow> string \<Rightarrow> jsval list" where
  "evaluateRange e startCell endCell sheetName =
     (case findCell startCell of
        None \<Rightarrow> []
      | Some (startCol, startRowText) \<Rightarrow>
          (case findCell endCell of
             None \<Rightarrow> []
           | Some (endCol, endRowText) \<Rightarrow>
               rangeLoop e sheetName startCol (parseInt startRowText) (parseInt endRowText) []))"

text \<open>A row below \<open>2^53\<close>, and a formula text whose range tokens all end at such a
  row.\<close>

definition exactRow :: "nat \<Rightarrow> bool" where
  "exactRow n = (int n < 2 ^ 53)"

definition boundedRanges :: "string \<Rightarrow> bool" where
  "boundedRanges txt =
     list_all (\<lambda>g. exactRow (parseInt (g ! 3))) (matchGroups rangePattern None txt)"

text \<open>What the callbacks of the two reference patterns return, as text:
  \<open>typeof value === 'number' ? value : (typeof value === 'string' ? `"${value}"` : 0)\<close>.\<close>

fun renderValue :: "runtime \<Rightarrow> jsval \<Rightarrow> string" where
  "renderValue rt (JNum q) = numToString rt q"
| "renderValue rt (JInf b) = (if b then ''Infinity'' else ''-Infinity'')"
| "renderValue rt JNaN = ''NaN''"
| "renderValue rt (JStr s) = ''\"'' @ s @ ''\"''"
| "renderValue rt v = ''0''"

definition substituteRanges :: "runtime \<Rightarrow> engine \<Rightarrow> string \<Rightarrow> string \<Rightarrow> string" where
  "substituteRanges rt e sheetName jsCode =
     gsub rangePattern
       (\<lambda>g. jsonNumbers rt (evaluateRange e (g ! 0 @ g ! 1) (g ! 2 @ g ! 3) sheetName))
       None jsCode"

definition substituteQualified :: "runtime \<Rightarrow> engine \<Rightarrow> string \<Rightarrow> string" where
  "substituteQualified rt e jsCode =
     gsub qualifiedPattern (\<lambda>g. renderValue rt (getCellValue e (g ! 0) (g ! 1))) None jsCode"

definition substituteBare :: "runtime \<Rightarrow> engine \<Rightarrow> string \<Rightarrow> string \<Rightarrow> string" where
  "substituteBare rt e sheetName jsCode =
     gsub barePattern (\<lambda>g. renderValue rt (getCellValue e sheetName (g ! 0))) None jsCode"

text \<open>The three substitutions in the order of the source.\<close>

definition substituteReferences :: "runtime \<Rightarrow> engine \<Rightarrow> string \<Rightarrow> string \<Rightarrow> string" where
  "substituteReferences rt e sheetName formula =
     substituteBare rt e sheetName
       (substituteQualified rt e
          (substituteRanges rt e sheetName formula))"

definition replaceLiteral :: "string \<Rightarrow> string \<Rightarrow> string \<Rightarrow> string" where
  "replaceLiteral lit replacement jsCode = gsub (literalPattern lit) (\<lambda>g. replacement) None jsCode"

definition functionNames :: "string list" where
  "functionNames =
     [''SUM'', ''AVERAGE'', ''MAX'', ''MIN'', ''IF'', ''ROUND'', ''ABS'', ''COUNT'', ''COUNTA'']"

text \<open>\<open>NAME(\<close> becomes \<open>this.excelFunctions.NAME(\<close>, one name after the other.\<close>

definition qualifyFunctions :: "string \<Rightarrow> string" where
  "qualifyFunctions jsCode =
     foldl (\<lambda>code name. replaceLiteral (name @ ''('') (''this.excelFunctions.'' @ name @ ''('') code)
       jsCode functionNames"

definition rewriteFormula :: "runtime \<Rightarrow> engine \<Rightarrow> string \<Rightarrow> string \<Rightarrow> string" where
  "rewriteFormula rt e sheetName formula =
     qualifyFunctions (substituteReferences rt e sheetName formula)"

section \<open>Formula evaluator\<close>

text \<open>
  The body of the \<open>try\<close> block: the value returned or the exception thrown, with the
  engine as it is at that point. The circular-reference branch returns without removing
  anything from \<open>processing\<close>.
\<close>

definition evaluateFormula_try ::
  "runtime \<Rightarrow> engine \<Rightarrow> string \<Rightarrow> string \<Rightarrow> string \<Rightarrow> (js_exn + jsval) \<times> engine" where
  "evaluateFormula_try rt e formula sheetName cellAddress =
     (let key = cellKey sheetName cellAddress
      in if key \<in> processing e then (Inr (JNum 0), e)
         else let e1 = e\<lparr> processing := insert key (processing e) \<rparr>;
                  jsCode = rewriteFormula rt e1 sheetName formula
              in (case rt_eval rt jsCode of
                    Inl err \<Rightarrow> (Inl err, e1)
                  | Inr result \<Rightarrow> (Inr result, e1\<lparr> processing := processing e1 - {key} \<rparr>)))"

text \<open>\<open>evaluateFormula\<close>: the \<open>catch\<close> clause removes the key and returns \<open>0\<close>.\<close>

definition evaluateFormula ::
  "runtime \<Rightarrow> engine \<Rightarrow> string \<Rightarrow> string \<Rightarrow> string \<Rightarrow> jsval \<times> engine" where
  "evaluateFormula rt e formula sheetName cellAddress =
     (case evaluateFormula_try rt e formula sheetName cellAddress of
        (Inr result, e') \<Rightarrow> (result, e')
      | (Inl err, e') \<Rightarrow>
          (JNum 0, e'\<lparr> processing := processing e' - {cellKey sheetName cellAddress} \<rparr>))"

section \<open>Workbook model and orchestration\<close>

record formulaDef =
  fcell :: string
  formula :: string

record staticValue =
  scell :: string
  svalue :: jsval

text \<open>A sheet as the workbook file declares it. A sheet without a \<open>formulas\<close> list has
  \<open>None\<close> there; a sheet without a \<open>static_values\<close> list has the empty list, which is what
  the guard \<open>if (sheetData.static_values)\<close> of the loading loop makes of it.\<close>

record sheetData =
  formulas :: "formulaDef list option"
  static_values :: "staticValue list"

record inputDef =
  isheet :: string
  icell :: string
  idefault :: jsval

text \<open>\<open>excelData\<close>: \<open>inputs\<close> and \<open>sheets\<close> in the order of \<open>Object.entries\<close>. An input
  without a default has \<open>JUndef\<close>. The workbook file is taken to declare both objects,
  every input with its sheet and cell, and every formula with a text.\<close>

record workbook =
  inputs :: "(string \<times> inputDef) list"
  sheets :: "(string \<times> sheetData) list"

text \<open>The loop of \<open>calculateSheet\<close> over the formulas in declared order.\<close>

fun calculateFormulas :: "runtime \<Rightarrow> string \<Rightarrow> formulaDef list \<Rightarrow> engine \<Rightarrow> engine" where
  "calculateFormulas rt sheetName [] e = e"
| "calculateFormulas rt sheetName (fd # fds) e =
     (let (result, e1) = evaluateFormula rt e (formula fd) sheetName (fcell fd)
      in calculateFormulas rt sheetName fds (setCellValue e1 sheetName (fcell fd) result))"

text \<open>
  \<open>calculateSheet\<close>: the exception that leaves it, if any, and the engine as it is then.
  The loop over \<open>sheet.formulas\<close> stands outside every \<open>try\<close> block: on a sheet without a
  \<open>formulas\<close> list it throws a \<open>TypeError\<close>.
\<close>

definition calculateSheet ::
  "runtime \<Rightarrow> workbook \<Rightarrow> engine \<Rightarrow> string \<Rightarrow> js_exn option \<times> engine" where
  "calculateSheet rt wb e sheetName =
     (case map_of (sheets wb) sheetName of
        None \<Rightarrow> (None, e)
      | Some sheet \<Rightarrow>
          (case formulas sheet of
             None \<Rightarrow> (Some TypeError, e)
           | Some fds \<Rightarrow> (None, calculateFormulas rt sheetName fds e)))"

definition sheetOrder :: "string list" where
  "sheetOrder =
     [''Assumptions.1'', ''Depsch'', ''wc'', ''FinalWorkings'', ''plbs'', ''RATIO'', ''MPBF'',
      ''Nayak'', ''Coverpage'']"

text \<open>The loop of \<open>calculateAll\<close>, for any list of sheet names: an exception that leaves
  \<open>calculateSheet\<close> ends it.\<close>

fun calculateSheets ::
  "runtime \<Rightarrow> workbook \<Rightarrow> string list \<Rightarrow> engine \<Rightarrow> js_exn option \<times> engine" where
  "calculateSheets rt wb [] e = (None, e)"
| "calculateSheets rt wb (name # names) e =
     (case calculateSheet rt wb e name of
        (None, e1) \<Rightarrow> calculateSheets rt wb names e1
      | (Some err, e1) \<Rightarrow> (Some err, e1))"

definition calculateAll :: "runtime \<Rightarrow> workbook \<Rightarrow> engine \<Rightarrow> js_exn option \<times> engine" where
  "calculateAll rt wb e = calculateSheets rt wb sheetOrder e"

section \<open>Input normalizer (\<open>setInputs\<close>)\<close>

text \<open>
  Property access on the caller's data. The own enumerable properties of an object are
  its entries, those of a string or an array its indices; the keys looked up here are
  never names inherited from a prototype.
\<close>

fun ownProps :: "jsval \<Rightarrow> (string \<times> jsval) list" where
  "ownProps (JObj ps) = ps"
| "ownProps (JStr s) = map (\<lambda>i. (decimal i, JStr [s ! i])) [0..<length s]"
| "ownProps (JArr xs) = map (\<lambda>i. (decimal i, xs ! i)) [0..<length xs]"
| "ownProps v = []"

definition getProp :: "jsval \<Rightarrow> string \<Rightarrow> jsval" where
  "getProp v k = (case map_of (ownProps v) k of Some x \<Rightarrow> x | None \<Rightarrow> JUndef)"

text \<open>\<open>normalizedData[k]\<close>\<close>

definition ndGet :: "(string \<rightharpoonup> jsval) \<Rightarrow> string \<Rightarrow> jsval" where
  "ndGet nd k = (case nd k of Some x \<Rightarrow> x | None \<Rightarrow> JUndef)"

definition fieldNameMapping :: "(string \<times> string) list" where
  "fieldNameMapping =
     [(''company_name'', ''applicant_name''),
      (''contact_person'', ''pan''),
      (''company_address'', ''center''),
      (''business_sector'', ''emp_name''),
      (''nature_of_business'', ''rm_name''),
      (''wc_loan_amount'', ''credit_limit''),
      (''wc_interest_rate'', ''proposed_roi''),
      (''processing_fees'', ''processing_fee''),
      (''wc_percentage'', ''conversion_charges''),
      (''num_skilled_workers'', ''partner_count''),
      (''skilled_worker_salary'', ''partner_salary''),
      (''num_semi_skilled_workers'', ''manager_count''),
      (''semi_skilled_worker_salary'', ''manager_salary''),
      (''num_unskilled_workers'', ''staff_count''),
      (''unskilled_worker_salary'', ''staff_salary''),
      (''monthly_power_charges'', ''electricity''),
      (''rent_increment_multiplier'', ''rent''),
      (''sales_growth_multiplier'', ''growth_rate''),
      (''turnover_months_year_1'', ''year1_months''),
      (''turnover_months_year_2'', ''year2_months''),
      (''monthly_rent'', ''marketing_expenses''),
      (''power_charges_increment_multiplier'', ''other_expenses'')]"

text \<open>\<open>formData.excelData || formData\<close>\<close>

definition selectInputData :: "(string \<times> jsval) list \<Rightarrow> jsval" where
  "selectInputData formData =
     (let x = getProp (JObj formData) ''excelData''
      in if truthy x then x else JObj formData)"

text \<open>The loop over \<open>fieldNameMapping\<close>, for any mapping table: the value under the old
  name, when it is neither \<open>undefined\<close> nor \<open>null\<close>, is assigned to the new name.\<close>

definition mapFieldNames ::
  "(string \<times> string) list \<Rightarrow> jsval \<Rightarrow> (string \<rightharpoonup> jsval) \<Rightarrow> (string \<rightharpoonup> jsval)" where
  "mapFieldNames table inputData nd =
     foldl (\<lambda>m (oldName, newName).
              if isPresent (getProp inputData oldName)
              then m(newName \<mapsto> getProp inputData oldName) else m)
       nd table"

text \<open>One unit conversion:
  \<open>if (nd.key && nd.key > bound) nd.key = conv(nd.key)\<close>.\<close>

definition convertIf ::
  "runtime \<Rightarrow> string \<Rightarrow> rat \<Rightarrow> (jsval \<Rightarrow> jsval) \<Rightarrow> (string \<rightharpoonup> jsval) \<Rightarrow> (string \<rightharpoonup> jsval)" where
  "convertIf rt key bound conv nd =
     (if truthy (ndGet nd key) \<and> jsGreater rt (ndGet nd key) bound
      then nd(key \<mapsto> conv (ndGet nd key)) else nd)"

definition convertUnits :: "runtime \<Rightarrow> (string \<rightharpoonup> jsval) \<Rightarrow> (string \<rightharpoonup> jsval)" where
  "convertUnits rt nd =
     (let nd1 = convertIf rt ''proposed_roi'' 1 (jsDiv100 rt) nd;
          nd2 = convertIf rt ''processing_fee'' 1 (jsDiv100 rt) nd1;
          nd3 = convertIf rt ''conversion_charges'' 1 (jsDiv100 rt) nd2;
          nd4 = convertIf rt ''rent'' 10 (jsOnePlusDiv100 rt) nd3;
          nd5 = convertIf rt ''growth_rate'' 10 (jsDiv100 rt) nd4
      in convertIf rt ''other_expenses'' 10 (jsOnePlusDiv100 rt) nd5)"

text \<open>\<open>normalizedData\<close> as it is when the cell writes begin.\<close>

definition normalizeInputs :: "runtime \<Rightarrow> (string \<times> jsval) list \<Rightarrow> (string \<rightharpoonup> jsval)" where
  "normalizeInputs rt formData =
     (let inputData = selectInputData formData
      in convertUnits rt (mapFieldNames fieldNameMapping inputData (map_of (ownProps inputData))))"

text \<open>The loop over \<open>this.excelData.inputs\<close>.\<close>

definition mapInputs :: "workbook \<Rightarrow> (string \<rightharpoonup> jsval) \<Rightarrow> engine \<Rightarrow> engine" where
  "mapInputs wb nd e =
     foldl (\<lambda>e1 (inputKey, d).
              let v = (if ndGet nd inputKey \<noteq> JUndef then ndGet nd inputKey else idefault d)
              in if isPresent v then setCellValue e1 (isheet d) (icell d) v else e1)
       e (inputs wb)"

text \<open>The mapping corrections for \<open>I30\<close>, \<open>I29\<close>, \<open>I28\<close>, \<open>I31\<close> and \<open>I35\<close>.\<close>

definition setIfDefined :: "(string \<rightharpoonup> jsval) \<Rightarrow> string \<Rightarrow> string \<Rightarrow> engine \<Rightarrow> engine" where
  "setIfDefined nd key cell e =
     (if ndGet nd key \<noteq> JUndef then setCellValue e ''Assumptions.1'' cell (ndGet nd key) else e)"

definition monthlyRentAmount :: "(string \<rightharpoonup> jsval) \<Rightarrow> jsval" where
  "monthlyRentAmount nd =
     (if truthy (ndGet nd ''monthly_rent'') then ndGet nd ''monthly_rent'' else JNum 7500)"

definition applyOverrides :: "(string \<rightharpoonup> jsval) \<Rightarrow> engine \<Rightarrow> engine" where
  "applyOverrides nd e =
     (let e1 = setIfDefined nd ''electricity'' ''I30'' e;
          e2 = setIfDefined nd ''rent'' ''I29'' e1;
          e3 = setCellValue e2 ''Assumptions.1'' ''I28'' (monthlyRentAmount nd);
          e4 = setIfDefined nd ''marketing_expenses'' ''I31'' e3
      in setIfDefined nd ''other_expenses'' ''I35'' e4)"

text \<open>The static values of all sheets, sheet by sheet.\<close>

definition loadSheetStatics :: "engine \<Rightarrow> string \<times> sheetData \<Rightarrow> engine" where
  "loadSheetStatics e entry =
     foldl (\<lambda>e1 sv. if isPresent (svalue sv)
                     then setCellValue e1 (fst entry) (scell sv) (svalue sv) else e1)
       e (static_values (snd entry))"

definition loadStaticValues :: "workbook \<Rightarrow> engine \<Rightarrow> engine" where
  "loadStaticValues wb e = foldl loadSheetStatics e (sheets wb)"

text \<open>\<open>F84 = 12\<close> and \<open>F72\<close> to \<open>F76\<close> \<open>= 0\<close>.\<close>

definition applyFixes :: "engine \<Rightarrow> engine" where
  "applyFixes e =
     (let e1 = setCellValue e ''Assumptions.1'' ''F84'' (JNum 12);
          e2 = setCellValue e1 ''Assumptions.1'' ''F72'' (JNum 0);
          e3 = setCellValue e2 ''Assumptions.1'' ''F73'' (JNum 0);
          e4 = setCellValue e3 ''Assumptions.1'' ''F74'' (JNum 0);
          e5 = setCellValue e4 ''Assumptions.1'' ''F75'' (JNum 0)
      in setCellValue e5 ''Assumptions.1'' ''F76'' (JNum 0))"

definition setInputs :: "runtime \<Rightarrow> workbook \<Rightarrow> engine \<Rightarrow> (string \<times> jsval) list \<Rightarrow> engine" where
  "setInputs rt wb e formData =
     (let nd = normalizeInputs rt formData
      in applyFixes (loadStaticValues wb (applyOverrides nd (mapInputs wb nd e))))"

text \<open>\<open>execute\<close> on a loaded workbook: the inputs, then all sheets; the exception that
  leaves \<open>calculateAll\<close>, if any, and the engine as it is then. (The response is read off
  the resulting store.)\<close>

definition execute ::
  "runtime \<Rightarrow> workbook \<Rightarrow> (string \<times> jsval) list \<Rightarrow> js_exn option \<times> engine" where
  "execute rt wb formData = calculateAll rt wb (setInputs rt wb newEngine formData)"

section \<open>A reference runtime for the arithmetic fragment\<close>

text \<open>
  To evaluate the engine on concrete workbooks, \<open>eval\<close> is instantiated on a fragment of
  JavaScript: expressions without white space built from unsigned integer literals of at
  most 15 digits, \<open>NaN\<close>, \<open>Infinity\<close>, the operators \<open>+\<close>, \<open>*\<close> and \<open>/\<close> on numbers,
  parentheses, array literals and calls of \<open>this.excelFunctions.SUM\<close>, in which every
  number computed is a natural number below \<open>2^53\<close>, \<open>Infinity\<close> or \<open>NaN\<close>. On this
  fragment it returns what JavaScript returns. Text outside the fragment is reported as a
  syntax error: that is what JavaScript does for the ill-formed expression used below
  (\<open>1+\<close>) and, the class body being strict code, for a literal with a leading zero, but
  not for every text, and no statement below evaluates another one. The recursion is
  bounded by a fuel that the length of the text always covers.
\<close>

definition inFragment :: "jsval \<Rightarrow> bool" where
  "inFragment v =
     (case v of
        JNum q \<Rightarrow> q = of_int \<lfloor>q\<rfloor> \<and> 0 \<le> q \<and> q < 2 ^ 53
      | JInf b \<Rightarrow> b
      | JNaN \<Rightarrow> True
      | _ \<Rightarrow> False)"

text \<open>\<open>a * b\<close> and \<open>a / b\<close> on two numbers: division by zero gives an infinity, and
  \<open>NaN\<close> for \<open>0 / 0\<close>; it does not throw.\<close>

fun numMul :: "jsval \<Rightarrow> jsval \<Rightarrow> jsval" where
  "numMul (JNum a) (JNum b) = JNum (a * b)"
| "numMul (JInf s) (JInf t) = JInf (s = t)"
| "numMul (JInf s) (JNum b) = (if b = 0 then JNaN else JInf (s = (0 < b)))"
| "numMul (JNum a) (JInf t) = (if a = 0 then JNaN else JInf (t = (0 < a)))"
| "numMul v w = JNaN"

fun numDiv :: "jsval \<Rightarrow> jsval \<Rightarrow> jsval" where
  "numDiv (JNum a) (JNum b) =
     (if b \<noteq> 0 then JNum (a / b) else if a = 0 then JNaN else JInf (0 < a))"
| "numDiv (JInf s) (JNum b) = JInf (s = (0 \<le> b))"
| "numDiv (JNum a) (JInf t) = JNum 0"
| "numDiv v w = JNaN"

text \<open>A binary operator applied within the fragment.\<close>

definition arith :: "(jsval \<Rightarrow> jsval \<Rightarrow> jsval) \<Rightarrow> jsval \<Rightarrow> jsval \<Rightarrow> jsval option" where
  "arith op v w =
     (if inFragment v \<and> inFragment w \<and> inFragment (op v w) then Some (op v w) else None)"

definition sumPrefix :: string where
  "sumPrefix = ''this.excelFunctions.SUM(''"

text \<open>The parser and evaluator of the fragment, one clause for each production of the
  grammar: a sum of products of atoms, and the items of an array literal or of an argument
  list up to the closing character.\<close>

datatype production =
    Expr
  | More jsval
  | Term
  | Factors jsval
  | Atom
  | Items char

primrec parse :: "nat \<Rightarrow> production \<Rightarrow> string \<Rightarrow> (jsval \<times> string) option" where
  "parse 0 = (\<lambda>nt s. None)"
| "parse (Suc n) = (\<lambda>nt s.
     case nt of
       Expr \<Rightarrow> (case parse n Term s of None \<Rightarrow> None | Some (v, r) \<Rightarrow> parse n (More v) r)
     | More v \<Rightarrow>
         (case s of
            [] \<Rightarrow> Some (v, [])
          | c # r \<Rightarrow>
              if c = CHR ''+''
              then (case parse n Term r of
                      None \<Rightarrow> None
                    | Some (w, r') \<Rightarrow>
                        (case arith numAdd v w of
                           None \<Rightarrow> None
                         | Some x \<Rightarrow> parse n (More x) r'))
              else Some (v, s))
     | Term \<Rightarrow> (case parse n Atom s of None \<Rightarrow> None | Some (v, r) \<Rightarrow> parse n (Factors v) r)
     | Factors v \<Rightarrow>
         (case s of
            [] \<Rightarrow> Some (v, [])
          | c # r \<Rightarrow>
              if c = CHR ''*'' \<or> c = CHR ''/''
              then (case parse n Atom r of
                      None \<Rightarrow> None
                    | Some (w, r') \<Rightarrow>
                        (case arith (if c = CHR ''*'' then numMul else numDiv) v w of
                           None \<Rightarrow> None
                         | Some x \<Rightarrow> parse n (Factors x) r'))
              else Some (v, s))
     | Atom \<Rightarrow>
         (case s of
            [] \<Rightarrow> None
          | c # r \<Rightarrow>
              if c = CHR ''(''
              then (case parse n Expr r of
                      Some (v, c' # r') \<Rightarrow> if c' = CHR '')'' then Some (v, r') else None
                    | _ \<Rightarrow> None)
              else if c = CHR ''[''
              then parse n (Items (CHR '']'')) r
              else if take (length sumPrefix) s = sumPrefix
              then (case parse n (Items (CHR '')'')) (drop (length sumPrefix) s) of
                      Some (JArr vs, r') \<Rightarrow>
                        if inFragment (SUM_fn vs) then Some (SUM_fn vs, r') else None
                    | _ \<Rightarrow> None)
              else if isDigit c
              then (if (c = CHR ''0'' \<and> r \<noteq> [] \<and> isDigit (hd r)) \<or>
                       15 < length (takeWhile isDigit s)
                    then None
                    else Some (JNum (of_nat (parseInt (takeWhile isDigit s))),
                               dropWhile isDigit s))
              else if take 3 s = ''NaN'' then Some (JNaN, drop 3 s)
              else if take 8 s = ''Infinity'' then Some (JInf True, drop 8 s)
              else None)
     | Items closer \<Rightarrow>
         (case s of
            [] \<Rightarrow> None
          | c # r \<Rightarrow>
              if c = closer then Some (JArr [], r)
              else (case parse n Expr s of
                      Some (v, c' # r') \<Rightarrow>
                        if c' = closer then Some (JArr [v], r')
                        else if c' = CHR '',''
                        then (case parse n (Items closer) r' of
                                Some (JArr vs, r'') \<Rightarrow> Some (JArr (v # vs), r'')
                              | _ \<Rightarrow> None)
                        else None
                    | _ \<Rightarrow> None)))"

definition evalArith :: "string \<Rightarrow> js_exn + jsval" where
  "evalArith code =
     (case parse (4 * length code + 4) Expr code of
        Some (v, []) \<Rightarrow> Inr v
      | _ \<Rightarrow> Inl SyntaxError)"

text \<open>Numbers that are not integers below \<open>2^53\<close> print in fixed-point notation with six
  digits, and only strings of digits coerce to numbers: the evaluations below reach
  neither.\<close>

definition fixedPoint :: "rat \<Rightarrow> string" where
  "fixedPoint q =
     (let a = \<bar>q\<bar>; whole = nat \<lfloor>a\<rfloor>; ds = decimal (nat \<lfloor>(a - of_nat whole) * 10 ^ 6\<rfloor>)
      in (if q < 0 then ''-'' else '''') @ decimal whole @ ''.'' @
         replicate (6 - length ds) (CHR ''0'') @ ds)"

definition coerceDigits :: "jsval \<Rightarrow> jsval" where
  "coerceDigits v =
     (case v of
        JStr s \<Rightarrow> if list_all isDigit s then JNum (of_nat (parseInt s)) else JNaN
      | _ \<Rightarrow> JNaN)"

definition rt0 :: runtime where
  "rt0 = \<lparr> rt_eval = evalArith, rt_fmt = fixedPoint, rt_coerce = coerceDigits \<rparr>"

text \<open>
  The rounding the specification words: to the nearest value at the given digit, a tie
  going away from zero. It is stated here to be compared with \<open>ROUND\<close>.
\<close>

definition roundHalfAway :: "rat \<Rightarrow> rat" where
  "roundHalfAway x = sgn x * of_int \<lfloor>\<bar>x\<bar> + 1 / 2\<rfloor>"

definition ROUND_spec :: "rat \<Rightarrow> int \<Rightarrow> rat" where
  "ROUND_spec number decimals =
     (let factor = 10 ^ nat \<bar>decimals\<bar>
      in if decimals < 0 then roundHalfAway (number / factor) * factor
         else roundHalfAway (number * factor) / factor)"

section \<open>The cell writes of \<open>setInputs\<close> as a sequence\<close>

text \<open>
  Every phase of \<open>setInputs\<close> is a sequence of \<open>setCellValue\<close> calls. The lists below
  name the calls of each phase in order (sheet, cell, value); the lemmas
  \<open>mapInputs_writes\<close>, \<open>applyOverrides_writes\<close>, \<open>loadStaticValues_writes\<close> and
  \<open>applyFixes_writes\<close> show that each phase is its list applied to the store.
\<close>

type_synonym cellWrite = "string \<times> string \<times> jsval"

definition writeCell :: "engine \<Rightarrow> cellWrite \<Rightarrow> engine" where
  "writeCell e w = (case w of (s, c, v) \<Rightarrow> setCellValue e s c v)"

definition applyWrites :: "engine \<Rightarrow> cellWrite list \<Rightarrow> engine" where
  "applyWrites e ws = foldl writeCell e ws"

definition target :: "cellWrite \<Rightarrow> string \<times> string" where
  "target w = (case w of (s, c, v) \<Rightarrow> (s, c))"

definition inputWrite :: "(string \<rightharpoonup> jsval) \<Rightarrow> string \<times> inputDef \<Rightarrow> cellWrite list" where
  "inputWrite nd entry =
     (let v = (if ndGet nd (fst entry) \<noteq> JUndef then ndGet nd (fst entry)
               else idefault (snd entry))
      in if isPresent v then [(isheet (snd entry), icell (snd entry), v)] else [])"

definition inputWrites :: "workbook \<Rightarrow> (string \<rightharpoonup> jsval) \<Rightarrow> cellWrite list" where
  "inputWrites wb nd = concat (map (inputWrite nd) (inputs wb))"



definition sheetStaticWrites :: "string \<times> sheetData \<Rightarrow> cellWrite list" where
  "sheetStaticWrites entry =
     map (\<lambda>sv. (fst entry, scell sv, svalue sv))
       (filter (\<lambda>sv. isPresent (svalue sv)) (static_values (snd entry)))"

definition staticWrites :: "workbook \<Rightarrow> cellWrite list" where
  "staticWrites wb = concat (map sheetStaticWrites (sheets wb))"

definition fixWrites :: "cellWrite list" where
  "fixWrites =
     [(''Assumptions.1'', ''F84'', JNum 12),
      (''Assumptions.1'', ''F72'', JNum 0),
      (''Assumptions.1'', ''F73'', JNum 0),
      (''Assumptions.1'', ''F74'', JNum 0),
      (''Assumptions.1'', ''F75'', JNum 0),
      (''Assumptions.1'', ''F76'', JNum 0)]"


text \<open>Cell addresses are column letters and row digits; all that the statements about
  keys need is that an address holds no \<open>!\<close>, so that a sheet-qualified key determines
  its sheet and its cell.\<close>

definition plainCell :: "string \<Rightarrow> bool" where
  "plainCell c = (CHR ''!'' \<notin> set c)"

definition writeKeys :: "cellWrite list \<Rightarrow> string set" where
  "writeKeys ws = (\<Union>w \<in> set ws. {cellKey (fst w) (fst (snd w)), fst (snd w)})"

section \<open>Example workbooks\<close>

definition emptyWorkbook :: workbook where
  "emptyWorkbook = \<lparr> inputs = [], sheets = [] \<rparr>"

definition rentZero :: "(string \<times> jsval) list" where
  "rentZero = [(''monthly_rent'', JNum 0)]"

text \<open>A workbook whose cell \<open>Assumptions.1!F84\<close> carries a static value and is the mapped
  cell of a named input, and one whose cell \<open>C5\<close> does.\<close>

definition monthsWorkbook :: workbook where
  "monthsWorkbook =
     \<lparr> inputs = [(''year_months'',
                   \<lparr> isheet = ''Assumptions.1'', icell = ''F84'', idefault = JUndef \<rparr>)],
       sheets = [(''Assumptions.1'',
                   \<lparr> formulas = Some [],
                     static_values = [\<lparr> scell = ''F84'', svalue = JNum 10 \<rparr>] \<rparr>)] \<rparr>"

definition monthsData :: "(string \<times> jsval) list" where
  "monthsData = [(''year_months'', JNum 6)]"

definition nameWorkbook :: workbook where
  "nameWorkbook =
     \<lparr> inputs = [(''applicant_name'',
                   \<lparr> isheet = ''Assumptions.1'', icell = ''C5'', idefault = JUndef \<rparr>)],
       sheets = [(''Assumptions.1'',
                   \<lparr> formulas = Some [],
                     static_values = [\<lparr> scell = ''C5'', svalue = JNum 7 \<rparr>] \<rparr>)] \<rparr>"

definition nameData :: "(string \<times> jsval) list" where
  "nameData = [(''applicant_name'', JStr ''Asha Traders'')]"

text \<open>Static values are declared with plain cell addresses.\<close>

definition plainStatics :: "workbook \<Rightarrow> bool" where
  "plainStatics wb =
     list_all (\<lambda>entry. list_all (\<lambda>sv. plainCell (scell sv)) (static_values (snd entry)))
       (sheets wb)"

text \<open>The static value \<open>sv\<close> of sheet \<open>name\<close> is the only value declared for its cell:
  any other present static value of the same sheet and cell has the same value.\<close>

definition soleStatic :: "workbook \<Rightarrow> string \<Rightarrow> staticValue \<Rightarrow> bool" where
  "soleStatic wb name sv =
     list_all (\<lambda>entry. list_all (\<lambda>x. fst entry \<noteq> name \<or> scell x \<noteq> scell sv \<or>
                                         \<not> isPresent (svalue x) \<or> svalue x = svalue sv)
                          (static_values (snd entry)))
       (sheets wb)"

text \<open>A workbook with one named input and no static values, and caller data that supply
  the input under its legacy name and under its canonical name.\<close>

definition applicantWorkbook :: workbook where
  "applicantWorkbook =
     \<lparr> inputs = [(''applicant_name'',
                   \<lparr> isheet = ''Assumptions.1'', icell = ''C5'', idefault = JUndef \<rparr>)],
       sheets = [] \<rparr>"

definition bothNames :: "(string \<times> jsval) list" where
  "bothNames = [(''company_name'', JStr ''Old Co''), (''applicant_name'', JStr ''New Co'')]"

definition legacyName :: "(string \<times> jsval) list" where
  "legacyName = [(''company_name'', JStr ''Old Co'')]"

definition legacyRent :: "(string \<times> jsval) list" where
  "legacyRent = [(''monthly_rent'', JNum 9000)]"


text \<open>Input cells are declared with plain addresses.\<close>

definition plainInputs :: "workbook \<Rightarrow> bool" where
  "plainInputs wb = list_all (\<lambda>entry. plainCell (icell (snd entry))) (inputs wb)"

text \<open>No input declared under another key is mapped to the sheet and cell of \<open>d\<close>.\<close>

definition soleInput :: "workbook \<Rightarrow> string \<Rightarrow> inputDef \<Rightarrow> bool" where
  "soleInput wb k d =
     list_all (\<lambda>entry. fst entry = k \<or> isheet (snd entry) \<noteq> isheet d \<or>
                        icell (snd entry) \<noteq> icell d)
       (inputs wb)"

definition unitKeys :: "string set" where
  "unitKeys = {''proposed_roi'', ''processing_fee'', ''conversion_charges'', ''rent'',
               ''growth_rate'', ''other_expenses''}"



section \<open>Shapes of text\<close>

text \<open>A cell address: a non-empty run of column letters, then a non-empty run of row
  digits.\<close>

definition columnText :: "string \<Rightarrow> bool" where
  "columnText col = (col \<noteq> [] \<and> list_all isUpper col)"

definition rowText :: "string \<Rightarrow> bool" where
  "rowText row = (row \<noteq> [] \<and> list_all isDigit row)"

text \<open>A sheet name as the pattern of sheet-qualified references takes it.\<close>

definition sheetText :: "string \<Rightarrow> bool" where
  "sheetText sheet = (sheet \<noteq> [] \<and> list_all isSheetChar sheet)"

text \<open>The characters of a number as JavaScript prints it: digits, the sign, the decimal
  point and the exponent mark.\<close>

definition numericText :: "string \<Rightarrow> bool" where
  "numericText s = list_all (\<lambda>c. c \<in> set ''0123456789-+.e'') s"

text \<open>The assumption on the runtime's rendering of the numbers that \<open>numToString\<close> leaves
  to it.\<close>

definition numericFmt :: "runtime \<Rightarrow> bool" where
  "numericFmt rt = (\<forall>q. numericText (rt_fmt rt q))"

text \<open>A store in which \<open>C10\<close>, \<open>C11\<close> and \<open>C12\<close> of sheet \<open>wc\<close> hold \<open>5\<close>, \<open>"abc"\<close> and
  \<open>15\<close>.\<close>

definition rangeEngine :: engine where
  "rangeEngine =
     setCellValue
       (setCellValue (setCellValue newEngine ''wc'' ''C10'' (JNum 5)) ''wc'' ''C11'' (JStr ''abc''))
       ''wc'' ''C12'' (JNum 15)"

text \<open>Workbooks with a formula that refers to its own cell, with a two-cell cycle, and
  with a formula whose rewritten text is ill-formed.\<close>

definition selfWorkbook :: workbook where
  "selfWorkbook =
     \<lparr> inputs = [],
       sheets = [(''wc'', \<lparr> formulas = Some [\<lparr> fcell = ''A1'', formula = ''A1+1'' \<rparr>],
                           static_values = [] \<rparr>)] \<rparr>"

definition cycleWorkbook :: workbook where
  "cycleWorkbook =
     \<lparr> inputs = [],
       sheets = [(''wc'', \<lparr> formulas = Some [\<lparr> fcell = ''A1'', formula = ''B1+1'' \<rparr>,
                                            \<lparr> fcell = ''B1'', formula = ''A1+1'' \<rparr>],
                           static_values = [] \<rparr>)] \<rparr>"

definition brokenWorkbook :: workbook where
  "brokenWorkbook =
     \<lparr> inputs = [],
       sheets = [(''wc'', \<lparr> formulas = Some [\<lparr> fcell = ''A1'', formula = ''1+'' \<rparr>,
                                            \<lparr> fcell = ''B1'', formula = ''A1+2'' \<rparr>],
                           static_values = [] \<rparr>)] \<rparr>"

text \<open>A workbook whose sheet \<open>wc\<close> refers to a static value of \<open>Assumptions.1\<close> and to
  two formula cells of \<open>plbs\<close>, a sheet processed after \<open>wc\<close>.\<close>

definition orderWorkbook :: workbook where
  "orderWorkbook =
     \<lparr> inputs = [],
       sheets = [(''Assumptions.1'',
                   \<lparr> formulas = Some [],
                     static_values = [\<lparr> scell = ''C5'', svalue = JNum 7 \<rparr>] \<rparr>),
                 (''wc'',
                   \<lparr> formulas = Some [\<lparr> fcell = ''D1'', formula = ''plbs!C5'' \<rparr>,
                                      \<lparr> fcell = ''D2'', formula = ''plbs!E9'' \<rparr>,
                                      \<lparr> fcell = ''D3'', formula = ''Assumptions.1!C5'' \<rparr>],
                     static_values = [] \<rparr>),
                 (''plbs'',
                   \<lparr> formulas = Some [\<lparr> fcell = ''C5'', formula = ''1+1'' \<rparr>,
                                      \<lparr> fcell = ''E9'', formula = ''2+2'' \<rparr>],
                     static_values = [] \<rparr>)] \<rparr>"


definition listlessWorkbook :: workbook where
  "listlessWorkbook =
     \<lparr> inputs = [],
       sheets = [(''wc'', \<lparr> formulas = None, static_values = [] \<rparr>)] \<rparr>"

definition otherSheetEngine :: engine where
  "otherSheetEngine = setCellValue newEngine ''plbs'' ''C11'' (JNum 40)"







section \<open>Rounding\<close>

lemma mathRound_nonneg: "0 \<le> x \<Longrightarrow> mathRound x = roundHalfAway x"
  by (cases "x = 0") (simp_all add: mathRound_def roundHalfAway_def floor_eq_iff)

lemma ROUND_nonneg: "0 \<le> n \<Longrightarrow> ROUND n d = ROUND_spec n d"
  by (simp add: ROUND_def ROUND_spec_def Let_def mathRound_nonneg)

lemma ROUND_hundreds: "ROUND 1234 (- 2) = 1200"
  by (simp add: ROUND_def mathRound_def floor_eq_iff)

text \<open>
  Claim C5. \<open>ROUND(n, d)\<close> is said to round a tie away from zero for every number,
  negative ones included. At \<open>n = -2.5\<close>, \<open>d = 0\<close> the function returns \<open>-2\<close>, the
  tie going towards \<open>+\<infinity>\<close> as \<open>Math.round\<close> does, where rounding away from zero gives
  \<open>-3\<close>.
\<close>

theorem ROUND_negative_tie: "ROUND (- 5 / 2) 0 = - 2 \<and> ROUND_spec (- 5 / 2) 0 = - 3"
  by (simp add: ROUND_def ROUND_spec_def mathRound_def roundHalfAway_def)

section \<open>Keys and writes\<close>

lemma cellKey_bang: "CHR ''!'' \<in> set (cellKey s c)"
  by (simp add: cellKey_def)

lemma cellKey_not_plain: "plainCell c' \<Longrightarrow> cellKey s c \<noteq> c'"
  using cellKey_bang [of s c] by (auto simp: plainCell_def)

lemma split_at_last:
  assumes "x \<notin> set c" "x \<notin> set c'" "s @ x # c = s' @ x # c'"
  shows "s = s' \<and> c = c'"
proof -
  have "rev c @ x # rev s = rev c' @ x # rev s'"
    using assms(3) by (metis rev_append rev.simps(2) append_assoc append_Cons append_Nil)
  moreover have "takeWhile (\<lambda>y. y \<noteq> x) (rev c @ x # rev s) = rev c"
    using assms(1) by (auto simp: takeWhile_tail)
  moreover have "takeWhile (\<lambda>y. y \<noteq> x) (rev c' @ x # rev s') = rev c'"
    using assms(2) by (auto simp: takeWhile_tail)
  ultimately have "rev c = rev c'" by simp
  then have "c = c'" by simp
  with assms(3) show ?thesis by simp
qed

lemma cellKey_inj:
  "plainCell c \<Longrightarrow> plainCell c' \<Longrightarrow> cellKey s c = cellKey s' c' \<longleftrightarrow> s = s' \<and> c = c'"
  using split_at_last [of "CHR ''!''" c c' s s'] by (auto simp: plainCell_def cellKey_def)

lemma cells_setCellValue:
  "calculatedCells (setCellValue e s c v) k =
     (if k = c \<or> k = cellKey s c then Some v else calculatedCells e k)"
  by (simp add: setCellValue_def)

lemma processing_setCellValue [simp]: "processing (setCellValue e s c v) = processing e"
  by (simp add: setCellValue_def)

lemma applyWrites_Nil [simp]: "applyWrites e [] = e"
  by (simp add: applyWrites_def)

lemma applyWrites_Cons [simp]: "applyWrites e (w # ws) = applyWrites (writeCell e w) ws"
  by (simp add: applyWrites_def)

lemma applyWrites_append [simp]: "applyWrites e (ws @ ws') = applyWrites (applyWrites e ws) ws'"
  by (simp add: applyWrites_def)

lemma applyWrites_snoc: "applyWrites e (ws @ [w]) = writeCell (applyWrites e ws) w"
  by simp

lemma processing_applyWrites [simp]: "processing (applyWrites e ws) = processing e"
  by (induction ws arbitrary: e) (auto simp: writeCell_def split: prod.splits)

lemma applyWrites_frame:
  "k \<notin> writeKeys ws \<Longrightarrow> calculatedCells (applyWrites e ws) k = calculatedCells e k"
  by (induction ws arbitrary: e)
     (auto simp: writeKeys_def writeCell_def cells_setCellValue split: prod.splits)

lemma applyWrites_agree:
  assumes "(s, c, v) \<in> set ws"
    and "\<And>s' c' v'. (s', c', v') \<in> set ws \<Longrightarrow> cellKey s' c' = cellKey s c \<Longrightarrow> v' = v"
    and "\<And>s' c' v'. (s', c', v') \<in> set ws \<Longrightarrow> c' \<noteq> cellKey s c"
  shows "calculatedCells (applyWrites e ws) (cellKey s c) = Some v"
  using assms
proof (induction ws rule: rev_induct)
  case Nil
  then show ?case by simp
next
  case (snoc w ws)
  obtain s' c' v' where w: "w = (s', c', v')" by (cases w) auto
  show ?case
  proof (cases "cellKey s' c' = cellKey s c")
    case True
    then have "v' = v" using snoc.prems(2) [of s' c' v'] w by simp
    then show ?thesis using True w by (simp add: writeCell_def cells_setCellValue)
  next
    case False
    have ne: "c' \<noteq> cellKey s c" using snoc.prems(3) [of s' c' v'] w by simp
    have mem: "(s, c, v) \<in> set ws" using snoc.prems(1) False w by auto
    have "calculatedCells (applyWrites e ws) (cellKey s c) = Some v"
    proof (rule snoc.IH [OF mem])
      fix s' c' v' assume "(s', c', v') \<in> set ws" "cellKey s' c' = cellKey s c"
      then show "v' = v" using snoc.prems(2) [of s' c' v'] by simp
    next
      fix s' c' v' assume "(s', c', v') \<in> set ws"
      then show "c' \<noteq> cellKey s c" using snoc.prems(3) [of s' c' v'] by simp
    qed
    then show ?thesis using False ne w by (simp add: writeCell_def cells_setCellValue)
  qed
qed

section \<open>The phases of \<open>setInputs\<close>\<close>

lemma foldl_writes:
  assumes "\<And>e x. f e x = applyWrites e (g x)"
  shows "foldl f e xs = applyWrites e (concat (map g xs))"
  by (induction xs arbitrary: e) (simp_all add: assms)

lemma mapInputs_writes: "mapInputs wb nd e = applyWrites e (inputWrites wb nd)"
  unfolding mapInputs_def inputWrites_def
  by (rule foldl_writes) (auto simp: inputWrite_def writeCell_def Let_def split: prod.splits)



lemma loadSheetStatics_writes: "loadSheetStatics e entry = applyWrites e (sheetStaticWrites entry)"
proof -
  have "foldl (\<lambda>e1 sv. if isPresent (svalue sv)
                     then setCellValue e1 (fst entry) (scell sv) (svalue sv) else e1) e (xs :: staticValue list)
        = applyWrites e (map (\<lambda>sv. (fst entry, scell sv, svalue sv))
            (filter (\<lambda>sv. isPresent (svalue sv)) xs))" for xs
    by (induction xs arbitrary: e) (simp_all add: writeCell_def)
  then show ?thesis by (simp add: loadSheetStatics_def sheetStaticWrites_def)
qed

lemma loadStaticValues_writes: "loadStaticValues wb e = applyWrites e (staticWrites wb)"
  unfolding loadStaticValues_def staticWrites_def
  by (rule foldl_writes) (rule loadSheetStatics_writes)

lemma applyFixes_writes: "applyFixes e = applyWrites e fixWrites"
  by (simp add: applyFixes_def fixWrites_def Let_def writeCell_def)


lemma mapFieldNames_frame:
  "k \<notin> snd ` set table \<Longrightarrow> mapFieldNames table inputData nd k = nd k"
  unfolding mapFieldNames_def
  by (induction table arbitrary: nd) (auto split: prod.splits)

lemma convertIf_frame: "k \<noteq> key \<Longrightarrow> convertIf rt key b conv nd k = nd k"
  by (simp add: convertIf_def)

lemma convertUnits_frame:
  "k \<notin> {''proposed_roi'', ''processing_fee'', ''conversion_charges'', ''rent'', ''growth_rate'',
         ''other_expenses''} \<Longrightarrow> convertUnits rt nd k = nd k"
  by (simp add: convertUnits_def Let_def convertIf_frame)

lemma monthly_rent_untouched:
  "ndGet (normalizeInputs rt formData) ''monthly_rent'' =
     getProp (selectInputData formData) ''monthly_rent''"
proof -
  have "''monthly_rent'' \<notin> snd ` set fieldNameMapping"
    by (simp add: fieldNameMapping_def)
  then show ?thesis
    by (simp add: ndGet_def normalizeInputs_def Let_def convertUnits_frame mapFieldNames_frame
        getProp_def)
qed

lemma getCellValue_qualified:
  "calculatedCells e (cellKey s c) = Some v \<Longrightarrow> getCellValue e s c = v"
  by (simp add: getCellValue_def)

lemma I28_after_overrides:
  "getCellValue (applyOverrides nd e) ''Assumptions.1'' ''I28'' = monthlyRentAmount nd"
  by (rule getCellValue_qualified)
     (simp add: applyOverrides_def Let_def setIfDefined_def cells_setCellValue cellKey_def)

lemma fixed_cells_last:
  "(s, c, v) \<in> set fixWrites \<Longrightarrow> getCellValue (applyWrites e fixWrites) s c = v"
  by (rule getCellValue_qualified)
     (auto simp: fixWrites_def writeCell_def cells_setCellValue cellKey_def)

section \<open>Unconditional writes of \<open>setInputs\<close>\<close>

text \<open>
  Claim C10, as amended. Whatever the caller supplies, \<open>setInputs\<close> writes
  \<open>Assumptions.1!I28\<close> in its override phase: the supplied \<open>monthly_rent\<close> when that
  value is truthy, and \<open>7500\<close> otherwise (also for a supplied \<open>0\<close>, empty string,
  \<open>false\<close> or \<open>null\<close>). The writes \<open>F84 = 12\<close> and \<open>F72\<close> to \<open>F76\<close> \<open>= 0\<close> come after
  the static values are loaded, so the store holds them when \<open>setInputs\<close> completes,
  for every workbook.
\<close>

theorem setInputs_unconditional_writes:
  "getCellValue (applyOverrides (normalizeInputs rt formData)
                   (mapInputs wb (normalizeInputs rt formData) e)) ''Assumptions.1'' ''I28''
     = (if truthy (getProp (selectInputData formData) ''monthly_rent'')
        then getProp (selectInputData formData) ''monthly_rent'' else JNum 7500) \<and>
   setInputs rt wb e formData
     = applyFixes (loadStaticValues wb
         (applyOverrides (normalizeInputs rt formData)
            (mapInputs wb (normalizeInputs rt formData) e))) \<and>
   getCellValue (setInputs rt wb e formData) ''Assumptions.1'' ''F84'' = JNum 12 \<and>
   getCellValue (setInputs rt wb e formData) ''Assumptions.1'' ''F72'' = JNum 0 \<and>
   getCellValue (setInputs rt wb e formData) ''Assumptions.1'' ''F73'' = JNum 0 \<and>
   getCellValue (setInputs rt wb e formData) ''Assumptions.1'' ''F74'' = JNum 0 \<and>
   getCellValue (setInputs rt wb e formData) ''Assumptions.1'' ''F75'' = JNum 0 \<and>
   getCellValue (setInputs rt wb e formData) ''Assumptions.1'' ''F76'' = JNum 0"
proof -
  have rent: "getCellValue (applyOverrides (normalizeInputs rt formData)
                   (mapInputs wb (normalizeInputs rt formData) e)) ''Assumptions.1'' ''I28''
     = (if truthy (getProp (selectInputData formData) ''monthly_rent'')
        then getProp (selectInputData formData) ''monthly_rent'' else JNum 7500)"
    by (simp add: I28_after_overrides monthlyRentAmount_def monthly_rent_untouched)
  have order: "setInputs rt wb e formData
     = applyFixes (loadStaticValues wb
         (applyOverrides (normalizeInputs rt formData)
            (mapInputs wb (normalizeInputs rt formData) e)))"
    by (simp add: setInputs_def Let_def)
  have fixed: "getCellValue (setInputs rt wb e formData) s c = v"
    if "(s, c, v) \<in> set fixWrites" for s c v
    unfolding order applyFixes_writes using that by (rule fixed_cells_last)
  have f84: "getCellValue (setInputs rt wb e formData) ''Assumptions.1'' ''F84'' = JNum 12"
    by (rule fixed) (simp add: fixWrites_def)
  have f72: "getCellValue (setInputs rt wb e formData) ''Assumptions.1'' ''F72'' = JNum 0"
    by (rule fixed) (simp add: fixWrites_def)
  have f73: "getCellValue (setInputs rt wb e formData) ''Assumptions.1'' ''F73'' = JNum 0"
    by (rule fixed) (simp add: fixWrites_def)
  have f74: "getCellValue (setInputs rt wb e formData) ''Assumptions.1'' ''F74'' = JNum 0"
    by (rule fixed) (simp add: fixWrites_def)
  have f75: "getCellValue (setInputs rt wb e formData) ''Assumptions.1'' ''F75'' = JNum 0"
    by (rule fixed) (simp add: fixWrites_def)
  have f76: "getCellValue (setInputs rt wb e formData) ''Assumptions.1'' ''F76'' = JNum 0"
    by (rule fixed) (simp add: fixWrites_def)
  from rent order f84 f72 f73 f74 f75 f76 show ?thesis by blast
qed

text \<open>The claim as stated writes the supplied value whenever one is present; a
  supplied rent of \<open>0\<close> is present and \<open>I28\<close> receives \<open>7500\<close>.\<close>

theorem monthly_rent_zero_counterexample:
  "getProp (selectInputData rentZero) ''monthly_rent'' = JNum 0 \<and>
   getCellValue (setInputs rt0 emptyWorkbook newEngine rentZero) ''Assumptions.1'' ''I28''
     = JNum 7500"
  by code_simp

section \<open>Static values are written after inputs and overrides\<close>

lemma plainStatics_writes:
  "plainStatics wb \<Longrightarrow> (s, c, v) \<in> set (staticWrites wb) \<Longrightarrow> plainCell c"
  by (auto simp: plainStatics_def staticWrites_def sheetStaticWrites_def list_all_iff)

lemma soleStatic_writes:
  "soleStatic wb name sv \<Longrightarrow> (name, scell sv, v) \<in> set (staticWrites wb) \<Longrightarrow> v = svalue sv"
  by (auto simp: soleStatic_def staticWrites_def sheetStaticWrites_def list_all_iff)

lemma static_in_writes:
  "(name, sd) \<in> set (sheets wb) \<Longrightarrow> sv \<in> set (static_values sd) \<Longrightarrow> isPresent (svalue sv)
   \<Longrightarrow> (name, scell sv, svalue sv) \<in> set (staticWrites wb)"
  by (force simp: staticWrites_def sheetStaticWrites_def)

lemma static_after_load:
  assumes "(name, sd) \<in> set (sheets wb)" "sv \<in> set (static_values sd)" "isPresent (svalue sv)"
    and "plainStatics wb" "soleStatic wb name sv"
  shows "calculatedCells (loadStaticValues wb e) (cellKey name (scell sv)) = Some (svalue sv)"
  unfolding loadStaticValues_writes
proof (rule applyWrites_agree)
  show "(name, scell sv, svalue sv) \<in> set (staticWrites wb)"
    using assms(1-3) by (rule static_in_writes)
next
  fix s' c' v' assume w: "(s', c', v') \<in> set (staticWrites wb)"
    and k: "cellKey s' c' = cellKey name (scell sv)"
  have "plainCell c'" using assms(4) w by (rule plainStatics_writes)
  moreover have "plainCell (scell sv)"
    using assms(4) static_in_writes [OF assms(1-3)] by (rule plainStatics_writes)
  ultimately have "s' = name \<and> c' = scell sv" using k by (simp add: cellKey_inj)
  then show "v' = svalue sv" using w assms(5) by (auto dest: soleStatic_writes)
next
  fix s' c' v' assume w: "(s', c', v') \<in> set (staticWrites wb)"
  have "plainCell c'" using assms(4) w by (rule plainStatics_writes)
  then show "c' \<noteq> cellKey name (scell sv)" using cellKey_not_plain by metis
qed

lemma fix_keys:
  "plainCell c \<Longrightarrow> (s, c) \<notin> target ` set fixWrites \<Longrightarrow> cellKey s c \<notin> writeKeys fixWrites"
proof -
  assume p: "plainCell c" and t: "(s, c) \<notin> target ` set fixWrites"
  have "cellKey s c \<noteq> cellKey s' c'" if "(s', c', v') \<in> set fixWrites" for s' c' v'
  proof -
    have "plainCell c'" using that by (auto simp: fixWrites_def plainCell_def)
    moreover have "(s, c) \<noteq> (s', c')" using t that by (force simp: target_def)
    ultimately show ?thesis using p by (simp add: cellKey_inj)
  qed
  moreover have "cellKey s c \<noteq> c'" if "(s', c', v') \<in> set fixWrites" for s' c' v'
    using that cellKey_not_plain [of c' s c] by (auto simp: fixWrites_def plainCell_def)
  ultimately show ?thesis by (fastforce simp: writeKeys_def)
qed

text \<open>
  Claim C9, as amended. Within one \<open>setInputs\<close> run the declared static values are
  written after the named-input mapping and after the overrides for \<open>I28\<close> to \<open>I31\<close>
  and \<open>I35\<close>. Therefore a cell that carries a declared static value (not \<open>null\<close>, the
  only one declared for its sheet and cell) holds that static value when \<open>setInputs\<close>
  completes, whatever input or override was mapped to it, unless the cell is one of
  \<open>Assumptions.1!F84\<close>, \<open>F72\<close> to \<open>F76\<close>, which are overwritten afterwards.
\<close>

theorem static_value_wins:
  assumes "(name, sd) \<in> set (sheets wb)" "sv \<in> set (static_values sd)" "isPresent (svalue sv)"
    and "plainStatics wb" "soleStatic wb name sv"
    and "(name, scell sv) \<notin> target ` set fixWrites"
  shows "setInputs rt wb e formData
           = applyFixes (loadStaticValues wb
               (applyOverrides (normalizeInputs rt formData)
                  (mapInputs wb (normalizeInputs rt formData) e))) \<and>
         getCellValue (setInputs rt wb e formData) name (scell sv) = svalue sv"
proof -
  have order: "setInputs rt wb e formData
           = applyFixes (loadStaticValues wb
               (applyOverrides (normalizeInputs rt formData)
                  (mapInputs wb (normalizeInputs rt formData) e)))"
    by (simp add: setInputs_def Let_def)
  have "plainCell (scell sv)"
    using assms(4) static_in_writes [OF assms(1-3)] by (rule plainStatics_writes)
  then have "cellKey name (scell sv) \<notin> writeKeys fixWrites"
    using assms(6) by (rule fix_keys)
  then have "calculatedCells (setInputs rt wb e formData) (cellKey name (scell sv))
               = Some (svalue sv)"
    unfolding order applyFixes_writes
    by (simp add: applyWrites_frame static_after_load [OF assms(1-5)])
  then show ?thesis using order by (simp add: getCellValue_qualified)
qed

theorem static_value_wins_witness:
  "getCellValue (setInputs rt0 nameWorkbook newEngine nameData) ''Assumptions.1'' ''C5'' = JNum 7"
proof -
  have 1: "(''Assumptions.1'', \<lparr> formulas = Some [], static_values = [\<lparr> scell = ''C5'', svalue = JNum 7 \<rparr>] \<rparr>)
             \<in> set (sheets nameWorkbook)"
    by (simp add: nameWorkbook_def)
  have 2: "\<lparr> scell = ''C5'', svalue = JNum 7 \<rparr>
             \<in> set (static_values \<lparr> formulas = Some [], static_values = [\<lparr> scell = ''C5'', svalue = JNum 7 \<rparr>] \<rparr>)"
    by simp
  have 3: "isPresent (svalue \<lparr> scell = ''C5'', svalue = JNum 7 \<rparr>)" by simp
  have 4: "plainStatics nameWorkbook"
    by (simp add: plainStatics_def nameWorkbook_def plainCell_def)
  have 5: "soleStatic nameWorkbook ''Assumptions.1'' \<lparr> scell = ''C5'', svalue = JNum 7 \<rparr>"
    by (simp add: soleStatic_def nameWorkbook_def)
  have 6: "(''Assumptions.1'', scell \<lparr> scell = ''C5'', svalue = JNum 7 \<rparr>) \<notin> target ` set fixWrites"
    by (simp add: fixWrites_def target_def)
  have "getCellValue (setInputs rt0 nameWorkbook newEngine nameData) ''Assumptions.1''
          (scell \<lparr> scell = ''C5'', svalue = JNum 7 \<rparr>) = svalue \<lparr> scell = ''C5'', svalue = JNum 7 \<rparr>"
    using static_value_wins [OF 1 2 3 4 5 6, of rt0 newEngine nameData] by blast
  then show ?thesis by simp
qed

text \<open>The claim as stated covers every cell with a static value: at \<open>Assumptions.1!F84\<close>
  the input \<open>6\<close> is written, then the static value \<open>10\<close>, and the store ends with \<open>12\<close>.\<close>

theorem static_value_overwritten_counterexample:
  "inputWrites monthsWorkbook (normalizeInputs rt0 monthsData) = [(''Assumptions.1'', ''F84'', JNum 6)] \<and>
   staticWrites monthsWorkbook = [(''Assumptions.1'', ''F84'', JNum 10)] \<and>
   getCellValue (setInputs rt0 monthsWorkbook newEngine monthsData) ''Assumptions.1'' ''F84''
     = JNum 12"
  by code_simp

section \<open>Alias resolution\<close>

lemma mapFieldNames_alias:
  assumes "(a, k) \<in> set table" "distinct (map snd table)" "isPresent (getProp inputData a)"
  shows "mapFieldNames table inputData nd k = Some (getProp inputData a)"
  using assms
proof (induction table arbitrary: nd rule: rev_induct)
  case Nil
  then show ?case by simp
next
  case (snoc p table)
  obtain a' k' where p: "p = (a', k')" by (cases p) auto
  have step: "mapFieldNames (table @ [p]) inputData nd =
         (if isPresent (getProp inputData a')
          then (mapFieldNames table inputData nd)(k' \<mapsto> getProp inputData a')
          else mapFieldNames table inputData nd)"
    by (simp add: mapFieldNames_def p)
  show ?case
  proof (cases "(a, k) = (a', k')")
    case True
    then show ?thesis using snoc.prems(3) by (simp add: step)
  next
    case False
    then have mem: "(a, k) \<in> set table" using snoc.prems(1) p by auto
    have d: "distinct (map snd table)" using snoc.prems(2) by simp
    have "k \<noteq> k'" using snoc.prems(2) mem p by force
    moreover have "mapFieldNames table inputData nd k = Some (getProp inputData a)"
      using snoc.IH [OF mem d snoc.prems(3)] .
    ultimately show ?thesis by (simp add: step)
  qed
qed

lemma fieldNameMapping_distinct: "distinct (map snd fieldNameMapping)"
  by (simp add: fieldNameMapping_def)

lemma convertIf_local:
  "nd k = nd' k \<Longrightarrow> convertIf rt key b conv nd k = convertIf rt key b conv nd' k"
  by (auto simp: convertIf_def ndGet_def)

lemma convertUnits_local:
  assumes "nd k = nd' k"
  shows "convertUnits rt nd k = convertUnits rt nd' k"
  by (simp only: convertUnits_def Let_def) (intro convertIf_local assms)

lemma jsDiv100_present: "isPresent (jsDiv100 rt v)"
  by (simp add: jsDiv100_def split: jsval.splits)

lemma jsOnePlusDiv100_present: "isPresent (jsOnePlusDiv100 rt v)"
  by (simp add: jsOnePlusDiv100_def split: jsval.splits)

lemma convertIf_div_present:
  assumes "nd k = Some v" "isPresent v"
  shows "\<exists>w. convertIf rt key b (jsDiv100 rt) nd k = Some w \<and> isPresent w"
  using assms by (auto simp: convertIf_def jsDiv100_present)

lemma convertIf_plus_present:
  assumes "nd k = Some v" "isPresent v"
  shows "\<exists>w. convertIf rt key b (jsOnePlusDiv100 rt) nd k = Some w \<and> isPresent w"
  using assms by (auto simp: convertIf_def jsOnePlusDiv100_present)

lemma convertUnits_present:
  assumes "nd k = Some v" "isPresent v"
  shows "\<exists>w. convertUnits rt nd k = Some w \<and> isPresent w"
proof -
  obtain w1 where 1: "convertIf rt ''proposed_roi'' 1 (jsDiv100 rt) nd k = Some w1" "isPresent w1"
    using convertIf_div_present [where nd = nd and k = k, OF assms] by blast
  obtain w2 where 2: "convertIf rt ''processing_fee'' 1 (jsDiv100 rt)
      (convertIf rt ''proposed_roi'' 1 (jsDiv100 rt) nd) k = Some w2" "isPresent w2"
    using convertIf_div_present [where nd = "convertIf rt ''proposed_roi'' 1 (jsDiv100 rt) nd" and k = k, OF 1] by blast
  obtain w3 where 3: "convertIf rt ''conversion_charges'' 1 (jsDiv100 rt)
      (convertIf rt ''processing_fee'' 1 (jsDiv100 rt)
      (convertIf rt ''proposed_roi'' 1 (jsDiv100 rt) nd)) k = Some w3" "isPresent w3"
    using convertIf_div_present [where nd = "convertIf rt ''processing_fee'' 1 (jsDiv100 rt)
      (convertIf rt ''proposed_roi'' 1 (jsDiv100 rt) nd)" and k = k, OF 2] by blast
  obtain w4 where 4: "convertIf rt ''rent'' 10 (jsOnePlusDiv100 rt)
      (convertIf rt ''conversion_charges'' 1 (jsDiv100 rt)
      (convertIf rt ''processing_fee'' 1 (jsDiv100 rt)
      (convertIf rt ''proposed_roi'' 1 (jsDiv100 rt) nd))) k = Some w4" "isPresent w4"
    using convertIf_plus_present [where nd = "convertIf rt ''conversion_charges'' 1 (jsDiv100 rt)
      (convertIf rt ''processing_fee'' 1 (jsDiv100 rt)
      (convertIf rt ''proposed_roi'' 1 (jsDiv100 rt) nd))" and k = k, OF 3] by blast
  obtain w5 where 5: "convertIf rt ''growth_rate'' 10 (jsDiv100 rt)
      (convertIf rt ''rent'' 10 (jsOnePlusDiv100 rt)
      (convertIf rt ''conversion_charges'' 1 (jsDiv100 rt)
      (convertIf rt ''processing_fee'' 1 (jsDiv100 rt)
      (convertIf rt ''proposed_roi'' 1 (jsDiv100 rt) nd)))) k = Some w5" "isPresent w5"
    using convertIf_div_present [where nd = "convertIf rt ''rent'' 10 (jsOnePlusDiv100 rt)
      (convertIf rt ''conversion_charges'' 1 (jsDiv100 rt)
      (convertIf rt ''processing_fee'' 1 (jsDiv100 rt)
      (convertIf rt ''proposed_roi'' 1 (jsDiv100 rt) nd)))" and k = k, OF 4] by blast
  show ?thesis
    unfolding convertUnits_def Let_def
    using convertIf_plus_present [where nd = "convertIf rt ''growth_rate'' 10 (jsDiv100 rt)
      (convertIf rt ''rent'' 10 (jsOnePlusDiv100 rt)
      (convertIf rt ''conversion_charges'' 1 (jsDiv100 rt)
      (convertIf rt ''processing_fee'' 1 (jsDiv100 rt)
      (convertIf rt ''proposed_roi'' 1 (jsDiv100 rt) nd))))" and k = k, OF 5] by blast
qed

lemma unitKeys_frame: "k \<notin> unitKeys \<Longrightarrow> convertUnits rt nd k = nd k"
  by (rule convertUnits_frame) (simp add: unitKeys_def)


lemma inputWrites_iff:
  "(s, c, v) \<in> set (inputWrites wb nd) \<longleftrightarrow>
     (\<exists>k d. (k, d) \<in> set (inputs wb) \<and> s = isheet d \<and> c = icell d \<and> isPresent v \<and>
            v = (if ndGet nd k \<noteq> JUndef then ndGet nd k else idefault d))"
  by (auto simp: inputWrites_def inputWrite_def Let_def split: if_splits) force+

lemma input_after_mapping:
  assumes "(k, d) \<in> set (inputs wb)" "plainInputs wb" "soleInput wb k d"
    and "nd k = Some w" "isPresent w"
  shows "getCellValue (mapInputs wb nd e) (isheet d) (icell d) = w"
proof -
  have w: "ndGet nd k = w" "w \<noteq> JUndef"
    using assms(4,5) by (auto simp: ndGet_def)
  have plain: "plainCell (icell d')" if "(k', d') \<in> set (inputs wb)" for k' d'
    using assms(2) that by (auto simp: plainInputs_def list_all_iff)
  have "calculatedCells (applyWrites e (inputWrites wb nd)) (cellKey (isheet d) (icell d)) = Some w"
  proof (rule applyWrites_agree)
    show "(isheet d, icell d, w) \<in> set (inputWrites wb nd)"
      unfolding inputWrites_iff using assms(1,5) w by auto
  next
    fix s' c' v'
    assume m: "(s', c', v') \<in> set (inputWrites wb nd)"
      and key: "cellKey s' c' = cellKey (isheet d) (icell d)"
    obtain k' d' where e: "(k', d') \<in> set (inputs wb)" "s' = isheet d'" "c' = icell d'"
      "v' = (if ndGet nd k' \<noteq> JUndef then ndGet nd k' else idefault d')"
      using m unfolding inputWrites_iff by blast
    have "isheet d' = isheet d \<and> icell d' = icell d"
      using key e(2,3) plain [OF e(1)] plain [OF assms(1)] by (simp add: cellKey_inj)
    then have "k' = k"
      using assms(3) e(1) by (auto simp: soleInput_def list_all_iff)
    then show "v' = w" using e(4) w by simp
  next
    fix s' c' v'
    assume m: "(s', c', v') \<in> set (inputWrites wb nd)"
    obtain k' d' where e: "(k', d') \<in> set (inputs wb)" "c' = icell d'"
      using m unfolding inputWrites_iff by blast
    show "c' \<noteq> cellKey (isheet d) (icell d)"
      using plain [OF e(1)] e(2) cellKey_not_plain by metis
  qed
  then show ?thesis by (simp add: mapInputs_writes getCellValue_qualified)
qed

text \<open>
  Claim C2, as amended. When the caller supplies a legacy alias key with a value that is
  neither \<open>null\<close> nor \<open>undefined\<close>, the alias's value is assigned to the canonical key,
  over whatever the caller supplied under the canonical key itself (the alias wins). That
  value, after the unit conversion of the canonical key if it has one, is what the
  input-mapping loop writes into the canonical key's declared cell (the only input mapped
  to that cell). The alias \<open>monthly_rent\<close> is in addition read under its own name, for
  \<open>I28\<close>.
\<close>

theorem alias_value_written:
  assumes "(a, k) \<in> set fieldNameMapping"
    and "isPresent (getProp (selectInputData formData) a)"
    and "(k, d) \<in> set (inputs wb)" "plainInputs wb" "soleInput wb k d"
  shows "mapFieldNames fieldNameMapping (selectInputData formData)
           (map_of (ownProps (selectInputData formData))) k
           = Some (getProp (selectInputData formData) a) \<and>
         normalizeInputs rt formData k
           = convertUnits rt [k \<mapsto> getProp (selectInputData formData) a] k \<and>
         (k \<notin> unitKeys \<longrightarrow>
            ndGet (normalizeInputs rt formData) k = getProp (selectInputData formData) a) \<and>
         getCellValue (mapInputs wb (normalizeInputs rt formData) e) (isheet d) (icell d)
           = ndGet (normalizeInputs rt formData) k"
proof -
  let ?inp = "selectInputData formData"
  let ?nd1 = "mapFieldNames fieldNameMapping ?inp (map_of (ownProps ?inp))"
  have ali: "?nd1 k = Some (getProp ?inp a)"
    using assms(1) fieldNameMapping_distinct assms(2) by (rule mapFieldNames_alias)
  have norm: "normalizeInputs rt formData k = convertUnits rt ?nd1 k"
    by (simp add: normalizeInputs_def Let_def)
  have conv: "normalizeInputs rt formData k = convertUnits rt [k \<mapsto> getProp ?inp a] k"
    unfolding norm by (rule convertUnits_local) (simp add: ali)
  have plainv: "k \<notin> unitKeys \<longrightarrow> ndGet (normalizeInputs rt formData) k = getProp ?inp a"
    by (simp add: ndGet_def norm unitKeys_frame ali)
  obtain w where w: "normalizeInputs rt formData k = Some w" "isPresent w"
    unfolding norm using convertUnits_present [where nd = ?nd1 and k = k, OF ali assms(2)]
    by blast
  have "getCellValue (mapInputs wb (normalizeInputs rt formData) e) (isheet d) (icell d) = w"
    using assms(3-5) w by (rule input_after_mapping)
  then have cell: "getCellValue (mapInputs wb (normalizeInputs rt formData) e) (isheet d) (icell d)
           = ndGet (normalizeInputs rt formData) k"
    using w by (simp add: ndGet_def)
  from ali conv plainv cell show ?thesis by blast
qed

theorem alias_value_written_witness:
  "getCellValue (mapInputs applicantWorkbook (normalizeInputs rt0 legacyName) newEngine)
     ''Assumptions.1'' ''C5'' = JStr ''Old Co''"
proof -
  let ?d = "\<lparr> isheet = ''Assumptions.1'', icell = ''C5'', idefault = JUndef \<rparr>"
  have 1: "(''company_name'', ''applicant_name'') \<in> set fieldNameMapping"
    by (simp add: fieldNameMapping_def)
  have 2: "isPresent (getProp (selectInputData legacyName) ''company_name'')"
    by (simp add: selectInputData_def getProp_def legacyName_def)
  have 3: "(''applicant_name'', ?d) \<in> set (inputs applicantWorkbook)"
    by (simp add: applicantWorkbook_def)
  have 4: "plainInputs applicantWorkbook"
    by (simp add: plainInputs_def applicantWorkbook_def plainCell_def)
  have 5: "soleInput applicantWorkbook ''applicant_name'' ?d"
    by (simp add: soleInput_def applicantWorkbook_def)
  have u: "''applicant_name'' \<notin> unitKeys" by (simp add: unitKeys_def)
  have v: "getProp (selectInputData legacyName) ''company_name'' = JStr ''Old Co''"
    by (simp add: selectInputData_def getProp_def legacyName_def)
  have "getCellValue (mapInputs applicantWorkbook (normalizeInputs rt0 legacyName) newEngine)
          (isheet ?d) (icell ?d) = getProp (selectInputData legacyName) ''company_name''"
    using alias_value_written [OF 1 2 3 4 5, of rt0 newEngine] u by metis
  then show ?thesis by (simp add: v)
qed

text \<open>With both keys supplied the canonical key's cell receives the alias's value, not
  the canonical key's; and the value of the alias \<open>monthly_rent\<close> reaches \<open>I28\<close>.\<close>

theorem canonical_overwritten_counterexample:
  "getProp (selectInputData bothNames) ''applicant_name'' = JStr ''New Co'' \<and>
   getCellValue (setInputs rt0 applicantWorkbook newEngine bothNames) ''Assumptions.1'' ''C5''
     = JStr ''Old Co'' \<and>
   getCellValue (setInputs rt0 applicantWorkbook newEngine legacyRent) ''Assumptions.1'' ''I28''
     = JNum 9000"
  by code_simp

section \<open>Scanning\<close>

lemma digit_not_upper: "isDigit c \<Longrightarrow> \<not> isUpper c"
  by (auto simp: isDigit_def isUpper_def)

lemma takeWhile_run:
  assumes "list_all P xs" "ys = [] \<or> \<not> P (hd ys)"
  shows "takeWhile P (xs @ ys) = xs" "dropWhile P (xs @ ys) = ys"
proof -
  have a: "\<forall>x \<in> set xs. P x" using assms(1) by (simp add: list_all_iff)
  have b: "takeWhile P ys = []" "dropWhile P ys = ys"
    using assms(2) by (cases ys; simp)+
  show "takeWhile P (xs @ ys) = xs" using a b by simp
  show "dropWhile P (xs @ ys) = ys" using a b by simp
qed

lemma matchCellAt_cell:
  assumes "columnText col" "rowText row" "rest = [] \<or> \<not> isDigit (hd rest)"
  shows "matchCellAt (col @ row @ rest) = Some (col, row, rest)"
proof -
  have "\<not> isUpper (hd (row @ rest))"
    using assms(2) by (cases row) (auto simp: rowText_def digit_not_upper)
  then have c: "takeWhile isUpper (col @ row @ rest) = col"
    "dropWhile isUpper (col @ row @ rest) = row @ rest"
    using assms(1) takeWhile_run [of isUpper col "row @ rest"] by (auto simp: columnText_def)
  have r: "takeWhile isDigit (row @ rest) = row" "dropWhile isDigit (row @ rest) = rest"
    using assms(2,3) takeWhile_run [of isDigit row rest] by (auto simp: rowText_def)
  show ?thesis
    using assms(1,2) by (simp add: matchCellAt_def c r Let_def columnText_def rowText_def)
qed

lemma findCell_cell:
  assumes "columnText col" "rowText row"
  shows "findCell (col @ row) = Some (col, row)"
proof -
  have m: "matchCellAt (col @ row) = Some (col, row, [])"
    using matchCellAt_cell [OF assms, of "[]"] by simp
  obtain c cs where "col @ row = c # cs"
    using assms(1) by (cases col) (auto simp: columnText_def)
  then show ?thesis using m by simp
qed

lemma numbersOf_Nil: "numbersOf [] = []"
  by (simp add: numbersOf_def)

lemma numbersOf_Cons:
  "numbersOf (v # vs) = (if isNumeric v then [v] else []) @ numbersOf vs"
  by (simp add: numbersOf_def)

lemma rangeLoop_eq:
  "rangeLoop e sheetName col row endRow vals =
     vals @ numbersOf (map (\<lambda>r. getCellValue e sheetName (col @ decimal r)) [row..<Suc endRow])"
proof (induction e sheetName col row endRow vals rule: rangeLoop.induct)
  case (1 e sheetName startCol row endRow vals)
  let ?g = "\<lambda>r. getCellValue e sheetName (startCol @ decimal r)"
  show ?case
  proof (cases "row \<le> endRow")
    case True
    have u: "[row..<Suc endRow] = row # [Suc row..<Suc endRow]"
      using True by (simp add: upt_rec)
    have "rangeLoop e sheetName startCol row endRow vals =
            rangeLoop e sheetName startCol (row + 1) endRow
              (if isNumeric (?g row) then vals @ [?g row] else vals)"
      using True by (subst rangeLoop.simps) simp
    also have "\<dots> = (if isNumeric (?g row) then vals @ [?g row] else vals) @
                      numbersOf (map ?g [Suc row..<Suc endRow])"
      using "1.IH" [OF True] by simp
    also have "\<dots> = vals @ numbersOf (map ?g (row # [Suc row..<Suc endRow]))"
      by (simp only: list.map numbersOf_Cons) simp
    finally show ?thesis by (simp only: u)
  next
    case False
    then show ?thesis by (subst rangeLoop.simps) (simp add: numbersOf_Nil)
  qed
qed

lemma evaluateRange_cells:
  assumes "columnText col" "rowText row" "columnText col'" "rowText row'"
  shows "evaluateRange e (col @ row) (col' @ row') sheetName =
           numbersOf (map (\<lambda>r. getCellValue e sheetName (col @ decimal r))
                        [parseInt row..<Suc (parseInt row')])"
  by (simp add: evaluateRange_def findCell_cell [OF assms(1,2)] findCell_cell [OF assms(3,4)]
      rangeLoop_eq)

lemma gsub_none:
  "(\<And>prev t. set t \<subseteq> set s \<Longrightarrow> p prev t = None) \<Longrightarrow> gsub p f prev s = s"
proof (induction s arbitrary: prev)
  case Nil
  then show ?case by simp
next
  case (Cons c cs)
  have "p prev (c # cs) = None" using Cons.prems by simp
  moreover have "gsub p f (Some c) cs = cs"
    by (rule Cons.IH) (rule Cons.prems, auto)
  ultimately show ?case by simp
qed

lemma gsub_whole:
  assumes "p prev s = Some (s, groups)" "s \<noteq> []"
  shows "gsub p f prev s = f groups"
proof -
  obtain c cs where s: "s = c # cs" using assms(2) by (cases s) auto
  show ?thesis using assms(1) unfolding s by simp
qed

lemma matchCellAt_upper: "matchCellAt s = Some r \<Longrightarrow> \<exists>c \<in> set s. isUpper c"
proof -
  assume a: "matchCellAt s = Some r"
  then have "takeWhile isUpper s \<noteq> []"
    by (auto simp: matchCellAt_def Let_def split: if_splits)
  then obtain c where "c \<in> set (takeWhile isUpper s)" by (cases "takeWhile isUpper s") auto
  then show ?thesis by (meson set_takeWhileD)
qed

lemma matchCellAt_split:
  "matchCellAt s = Some (col, row, rest) \<Longrightarrow> s = col @ row @ rest"
  by (auto simp: matchCellAt_def Let_def split: if_splits)

lemma rangePattern_colon: "rangePattern prev s = Some r \<Longrightarrow> CHR '':'' \<in> set s"
  by (auto simp: rangePattern_def split: option.splits list.splits if_splits
      dest!: matchCellAt_split)

lemma qualifiedPattern_bang: "qualifiedPattern prev s = Some r \<Longrightarrow> CHR ''!'' \<in> set s"
proof -
  assume a: "qualifiedPattern prev s = Some r"
  then obtain r' where "dropWhile isSheetChar s = CHR ''!'' # r'"
    by (auto simp: qualifiedPattern_def Let_def split: if_splits list.splits option.splits)
  then have "CHR ''!'' \<in> set (dropWhile isSheetChar s)" by simp
  then show ?thesis by (meson set_dropWhileD)
qed

lemma barePattern_upper: "barePattern prev s = Some r \<Longrightarrow> \<exists>c \<in> set s. isUpper c"
  by (auto simp: barePattern_def split: if_splits option.splits dest: matchCellAt_upper)

lemma literalPattern_paren:
  "literalPattern (name @ ''('') prev s = Some r \<Longrightarrow> CHR ''('' \<in> set s"
proof -
  assume "literalPattern (name @ ''('') prev s = Some r"
  then have "take (length (name @ ''('')) s = name @ ''(''"
    by (auto simp: literalPattern_def split: if_splits)
  then have "CHR ''('' \<in> set (take (length (name @ ''('')) s)" by simp
  then show ?thesis by (meson in_set_takeD)
qed

lemma substituteRanges_id: "CHR '':'' \<notin> set s \<Longrightarrow> substituteRanges rt e sheetName s = s"
  unfolding substituteRanges_def
  by (rule gsub_none) (metis rangePattern_colon subsetD not_Some_eq)

lemma substituteQualified_id: "CHR ''!'' \<notin> set s \<Longrightarrow> substituteQualified rt e s = s"
  unfolding substituteQualified_def
  by (rule gsub_none) (metis qualifiedPattern_bang subsetD not_Some_eq)

lemma substituteBare_id: "\<forall>c \<in> set s. \<not> isUpper c \<Longrightarrow> substituteBare rt e sheetName s = s"
  unfolding substituteBare_def
  by (rule gsub_none) (metis barePattern_upper subsetD not_Some_eq)

lemma replaceLiteral_id:
  "CHR ''('' \<notin> set s \<Longrightarrow> replaceLiteral (name @ ''('') replacement s = s"
  unfolding replaceLiteral_def
  by (rule gsub_none) (metis literalPattern_paren subsetD not_Some_eq)

lemma qualifyFunctions_id: "CHR ''('' \<notin> set s \<Longrightarrow> qualifyFunctions s = s"
  by (simp add: qualifyFunctions_def functionNames_def replaceLiteral_id)

lemma decimal_digits: "list_all isDigit (decimal n)"
proof (induction n rule: decimal.induct)
  case (1 n)
  have d: "isDigit (''0123456789'' ! k)" if "k < 10" for k
  proof -
    have "''0123456789'' ! k \<in> set ''0123456789''"
      by (rule nth_mem) (use that in simp)
    then show ?thesis by (simp add: isDigit_def)
  qed
  show ?case
  proof (cases "n < 10")
    case True
    then show ?thesis by (subst decimal.simps) (simp add: d)
  next
    case False
    then show ?thesis using "1.IH" by (subst decimal.simps) (simp add: d)
  qed
qed

lemma digits_numeric: "list_all isDigit s \<Longrightarrow> numericText s"
  by (induction s) (auto simp: numericText_def isDigit_def)

lemma decimal_numeric: "numericText (decimal n)"
  by (rule digits_numeric) (rule decimal_digits)

lemma numericText_append: "numericText (a @ b) \<longleftrightarrow> numericText a \<and> numericText b"
  by (simp add: numericText_def)

lemma numToString_numeric:
  assumes "numericFmt rt"
  shows "numericText (numToString rt q)"
proof -
  have 1: "numericText (if q < 0 then ''-'' else [])" by (simp add: numericText_def)
  have 2: "numericText (rt_fmt rt q)" using assms by (simp add: numericFmt_def)
  show ?thesis
    unfolding numToString_def using 1 2 by (simp add: numericText_append decimal_numeric)
qed

lemma numeric_char_plain:
  "c \<in> set ''0123456789-+.e'' \<Longrightarrow> \<not> isUpper c \<and> c \<noteq> CHR ''!''"
  unfolding isUpper_def by simp (elim disjE; simp)

lemma numeric_plain:
  "numericText s \<Longrightarrow> c \<in> set s \<Longrightarrow> \<not> isUpper c \<and> c \<noteq> CHR ''!''"
  unfolding numericText_def list_all_iff by (rule numeric_char_plain) blast

lemma set_intercalate:
  "set (intercalate sep xs) \<subseteq> set sep \<union> (\<Union>x \<in> set xs. set x)"
  by (induction sep xs rule: intercalate.induct) auto

lemma jsonNumber_chars:
  assumes "numericFmt rt" "c \<in> set (jsonNumber rt v)"
  shows "\<not> isUpper c \<and> c \<noteq> CHR ''!''"
proof (cases "\<exists>q. v = JNum q")
  case True
  then obtain q where "v = JNum q" by blast
  then have "c \<in> set (numToString rt q)" using assms(2) by (simp add: jsonNumber_def)
  then show ?thesis using numeric_plain [OF numToString_numeric [OF assms(1)]] by blast
next
  case False
  then have "jsonNumber rt v = ''null''" by (cases v) (simp_all add: jsonNumber_def)
  then have "c \<in> set ''null''" using assms(2) by simp
  then show ?thesis unfolding isUpper_def by simp (elim disjE; simp)
qed

lemma jsonItems_chars:
  assumes "numericFmt rt" "c \<in> set (intercalate '','' (map (jsonNumber rt) vs))"
  shows "\<not> isUpper c \<and> c \<noteq> CHR ''!''"
proof -
  have "c = CHR '','' \<or> (\<exists>v. c \<in> set (jsonNumber rt v))"
    using assms(2) set_intercalate [of "'',''" "map (jsonNumber rt) vs"] by auto
  then show ?thesis
  proof
    assume "c = CHR '',''"
    then show ?thesis by (simp add: isUpper_def)
  next
    assume "\<exists>v. c \<in> set (jsonNumber rt v)"
    then show ?thesis using jsonNumber_chars [OF assms(1)] by blast
  qed
qed

lemma jsonNumbers_shape:
  "jsonNumbers rt vs = CHR ''['' # intercalate '','' (map (jsonNumber rt) vs) @ [CHR '']'']"
  by (simp add: jsonNumbers_def)

lemma jsonNumbers_chars:
  assumes "numericFmt rt" "c \<in> set (jsonNumbers rt vs)"
  shows "\<not> isUpper c \<and> c \<noteq> CHR ''!''"
proof -
  have "c = CHR ''['' \<or> c \<in> set (intercalate '','' (map (jsonNumber rt) vs)) \<or> c = CHR '']''"
    using assms(2) by (auto simp: jsonNumbers_def)
  then consider "c = CHR ''[''" | "c = CHR '']''"
    | "c \<in> set (intercalate '','' (map (jsonNumber rt) vs))"
    by blast
  then show ?thesis
  proof cases
    case 3
    then show ?thesis using jsonItems_chars [OF assms(1)] by blast
  qed (simp_all add: isUpper_def)
qed

subsection \<open>A match inside a longer text\<close>

lemma gsub_prev_cong: "p prev s = p prev' s \<Longrightarrow> gsub p f prev s = gsub p f prev' s"
  by (cases s) simp_all

lemma gsub_skip:
  assumes "\<And>prev' k. k < length pre \<Longrightarrow> p prev' (drop k pre @ rest) = None"
  shows "gsub p f prev (pre @ rest) =
           pre @ gsub p f (if pre = [] then prev else Some (last pre)) rest"
  using assms
proof (induction pre arbitrary: prev)
  case Nil
  then show ?case by simp
next
  case (Cons c cs)
  have 0: "p prev (c # cs @ rest) = None"
    using Cons.prems [of 0 prev] by simp
  have n: "p prev' (drop k cs @ rest) = None" if "k < length cs" for prev' k
    using Cons.prems [of "Suc k" prev'] that by simp
  have "gsub p f (Some c) (cs @ rest) =
          cs @ gsub p f (if cs = [] then Some c else Some (last cs)) rest"
    by (rule Cons.IH) (rule n)
  then show ?case using 0 by simp
qed

lemma gsub_match:
  assumes "p prev (m @ rest) = Some (m, groups)" "m \<noteq> []"
  shows "gsub p f prev (m @ rest) = f groups @ gsub p f (Some (last m)) rest"
proof -
  obtain c cs where m: "m = c # cs" using assms(2) by (cases m) auto
  have "gsub p f prev (c # cs @ rest) =
          f groups @ gsub p f (Some (last m)) (drop (length m) (c # cs @ rest))"
    using assms(1) unfolding m by simp
  moreover have "drop (length m) (c # cs @ rest) = rest" by (simp add: m)
  ultimately show ?thesis by (simp add: m)
qed

lemma takeWhile_stop: "\<not> P x \<Longrightarrow> takeWhile P (s @ x # t) = takeWhile P s"
  by (induction s) auto

lemma dropWhile_stop: "\<not> P x \<Longrightarrow> dropWhile P (s @ x # t) = dropWhile P s @ x # t"
  by (induction s) auto

text \<open>A character that is neither a letter nor a digit ends a cell reference as the end
  of the text does.\<close>

lemma matchCellAt_stop:
  assumes "\<not> isUpper x" "\<not> isDigit x"
  shows "matchCellAt (s @ x # t) =
           map_option (\<lambda>(col, row, rest). (col, row, rest @ x # t)) (matchCellAt s)"
proof -
  have u: "takeWhile isUpper (s @ x # t) = takeWhile isUpper s"
    "dropWhile isUpper (s @ x # t) = dropWhile isUpper s @ x # t"
    using assms(1) by (simp_all add: takeWhile_stop dropWhile_stop)
  have d: "takeWhile isDigit (r @ x # t) = takeWhile isDigit r"
    "dropWhile isDigit (r @ x # t) = dropWhile isDigit r @ x # t" for r
    using assms(2) by (simp_all add: takeWhile_stop dropWhile_stop)
  show ?thesis by (simp add: matchCellAt_def Let_def u d)
qed

lemma gsub_unfold:
  "s \<noteq> [] \<Longrightarrow>
     gsub p f prev s =
       (case p prev s of
          None \<Rightarrow> hd s # gsub p f (Some (hd s)) (tl s)
        | Some (m, g) \<Rightarrow>
            if m = [] then hd s # gsub p f (Some (hd s)) (tl s)
            else f g @ gsub p f (Some (last m)) (drop (length m) s))"
  by (cases s) (auto split: option.splits)

lemma gsub_stop:
  assumes stop: "\<And>prev s. p prev (s @ x # t) = p prev s"
    and prefix: "\<And>prev s m g. p prev s = Some (m, g) \<Longrightarrow> \<exists>r. s = m @ r"
    and empty: "\<And>prev. p prev [] = None"
  shows "gsub p f prev (a @ x # t) = gsub p f prev a @ x # gsub p f (Some x) t"
proof (induction "length a" arbitrary: a prev rule: less_induct)
  case less
  let ?tail = "x # gsub p f (Some x) t"
  show ?case
  proof (cases "a = []")
    case True
    have "p prev (x # t) = None" using stop [of prev "[]"] empty by simp
    then show ?thesis by (simp add: True)
  next
    case False
    have ne: "a @ x # t \<noteq> []" by simp
    have same: "p prev (a @ x # t) = p prev a" by (rule stop)
    have hd_tl: "hd (a @ x # t) = hd a" "tl (a @ x # t) = tl a @ x # t"
      using False by simp_all
    have step: "gsub p f (Some (hd a)) (tl a @ x # t) = gsub p f (Some (hd a)) (tl a) @ ?tail"
      by (rule less) (use False in simp)
    have copy: "hd a # gsub p f (Some (hd a)) (tl a @ x # t) =
                  (hd a # gsub p f (Some (hd a)) (tl a)) @ ?tail"
      using step by simp
    show ?thesis
    proof (cases "p prev a")
      case None
      have "gsub p f prev (a @ x # t) = hd a # gsub p f (Some (hd a)) (tl a @ x # t)"
        by (simp only: gsub_unfold [OF ne] same None hd_tl option.case)
      moreover have "gsub p f prev a = hd a # gsub p f (Some (hd a)) (tl a)"
        by (simp only: gsub_unfold [OF False] None option.case)
      ultimately show ?thesis using copy by simp
    next
      case (Some mg)
      obtain m g where mg: "mg = (m, g)" by (cases mg)
      show ?thesis
      proof (cases "m = []")
        case True
        have "gsub p f prev (a @ x # t) = hd a # gsub p f (Some (hd a)) (tl a @ x # t)"
          by (simp only: gsub_unfold [OF ne] same Some mg hd_tl option.case prod.case True
              simp_thms if_True)
        moreover have "gsub p f prev a = hd a # gsub p f (Some (hd a)) (tl a)"
          by (simp only: gsub_unfold [OF False] Some mg option.case prod.case True simp_thms
              if_True)
        ultimately show ?thesis using copy by simp
      next
        case m: False
        obtain r where r: "a = m @ r" using prefix Some mg by blast
        have len: "length r < length a" using r m by simp
        have d1: "drop (length m) (a @ x # t) = r @ x # t" by (simp add: r)
        have d2: "drop (length m) a = r" by (simp add: r)
        have "gsub p f prev (a @ x # t) = f g @ gsub p f (Some (last m)) (r @ x # t)"
          by (simp only: gsub_unfold [OF ne] same Some mg option.case prod.case m if_False d1)
        moreover have "gsub p f prev a = f g @ gsub p f (Some (last m)) r"
          by (simp only: gsub_unfold [OF False] Some mg option.case prod.case m if_False d2)
        moreover have "gsub p f (Some (last m)) (r @ x # t) =
                gsub p f (Some (last m)) r @ ?tail"
          by (rule less) (rule len)
        ultimately show ?thesis by simp
      qed
    qed
  qed
qed

subsection \<open>Cell references\<close>

lemma cell_chars:
  assumes "columnText col" "rowText row" "c \<in> set (col @ row)"
  shows "c \<noteq> CHR '':'' \<and> c \<noteq> CHR ''!'' \<and> c \<noteq> CHR ''(''"
proof -
  have "isUpper c \<or> isDigit c"
    using assms by (auto simp: columnText_def rowText_def list_all_iff)
  then show ?thesis
    unfolding isUpper_def isDigit_def by simp (elim disjE; simp)
qed

lemma decimal_0: "decimal 0 = ''0''"
  by (subst decimal.simps) simp

lemma numToString_0: "numToString rt 0 = ''0''"
  by (simp add: numToString_def decimal_0)

lemma barePattern_cell:
  assumes "columnText col" "rowText row"
  shows "barePattern None (col @ row) = Some (col @ row, [col @ row])"
proof -
  have "matchCellAt (col @ row) = Some (col, row, [])"
    using matchCellAt_cell [OF assms, of "[]"] by simp
  then show ?thesis by (simp add: barePattern_def)
qed

lemma substituteBare_cell:
  assumes "columnText col" "rowText row"
  shows "substituteBare rt e sheetName (col @ row) =
           renderValue rt (getCellValue e sheetName (col @ row))"
proof -
  have ne: "col @ row \<noteq> []" using assms(1) by (simp add: columnText_def)
  have "gsub barePattern (\<lambda>g. renderValue rt (getCellValue e sheetName (g ! 0))) None (col @ row)
          = renderValue rt (getCellValue e sheetName ([col @ row] ! 0))"
    using barePattern_cell [OF assms] ne by (rule gsub_whole)
  then show ?thesis by (simp add: substituteBare_def)
qed

section \<open>Order of the substitutions\<close>

subsection \<open>A range token inside a formula text\<close>

lemma rangePattern_prev: "rangePattern prev s = rangePattern prev' s"
  by (simp add: rangePattern_def)

lemma rangePattern_token:
  assumes "columnText c1" "rowText r1" "columnText c2" "rowText r2"
    and "post = [] \<or> \<not> isDigit (hd post)"
  shows "rangePattern prev ((c1 @ r1 @ '':'' @ c2 @ r2) @ post) =
           Some (c1 @ r1 @ '':'' @ c2 @ r2, [c1, r1, c2, r2])"
proof -
  have 1: "matchCellAt (c1 @ r1 @ CHR '':'' # c2 @ r2 @ post) =
             Some (c1, r1, CHR '':'' # c2 @ r2 @ post)"
    by (rule matchCellAt_cell [OF assms(1,2)]) (simp add: isDigit_def)
  have 2: "matchCellAt (c2 @ r2 @ post) = Some (c2, r2, post)"
    by (rule matchCellAt_cell [OF assms(3,4,5)])
  have "rangePattern prev (c1 @ r1 @ CHR '':'' # c2 @ r2 @ post) =
          Some (c1 @ r1 @ '':'' @ c2 @ r2, [c1, r1, c2, r2])"
    unfolding rangePattern_def by (simp only: 1 2 option.case prod.case list.case if_False
        simp_thms)
  then show ?thesis by simp
qed

lemma rangePattern_rest:
  assumes "dropWhile isDigit (dropWhile isUpper s) = h # t" "h \<noteq> CHR '':''"
  shows "rangePattern prev s = None"
  using assms by (simp add: rangePattern_def matchCellAt_def Let_def)

text \<open>No range token begins in a text that holds no colon and does not end in a column
  letter, whatever column letters follow it.\<close>

lemma rangePattern_before:
  assumes "CHR '':'' \<notin> set u" "u \<noteq> []" "\<not> isUpper (last u)" "columnText c1"
  shows "rangePattern prev (u @ c1 @ rest) = None"
proof -
  let ?v = "dropWhile isUpper u"
  obtain u' where u: "u = u' @ [last u]"
    using assms(2) by (metis append_butlast_last_id)
  have v: "?v = dropWhile isUpper u' @ [last u]"
    using dropWhile_stop [of isUpper "last u" u' "[]"] assms(3) u by simp
  have "dropWhile isUpper (u' @ last u # c1 @ rest) = dropWhile isUpper u' @ last u # c1 @ rest"
    using assms(3) by (rule dropWhile_stop)
  then have du: "dropWhile isUpper (u @ c1 @ rest) = ?v @ c1 @ rest"
    using u v by (metis append_Cons append_Nil append_assoc)
  have sub: "set ?v \<subseteq> set u" by (meson set_dropWhileD subsetI)
  obtain c cs where c1: "c1 = c # cs" and uc: "isUpper c"
    using assms(4) by (cases c1) (auto simp: columnText_def)
  have nd: "\<not> isDigit c" using uc digit_not_upper by blast
  have cc: "c \<noteq> CHR '':''" using uc by (auto simp: isUpper_def)
  have dd: "dropWhile isDigit (?v @ c # cs @ rest) = dropWhile isDigit ?v @ c # cs @ rest"
    using nd by (rule dropWhile_stop)
  have du': "dropWhile isUpper (u @ c1 @ rest) = ?v @ c # cs @ rest"
    using du c1 by simp
  show ?thesis
  proof (cases "dropWhile isDigit ?v")
    case Nil
    have "dropWhile isDigit (dropWhile isUpper (u @ c1 @ rest)) = c # cs @ rest"
      by (simp only: du' dd Nil append_Nil)
    then show ?thesis using cc by (rule rangePattern_rest)
  next
    case (Cons h t)
    have "h \<in> set (dropWhile isDigit ?v)" by (simp add: Cons)
    then have "h \<in> set u" using sub by (meson set_dropWhileD subsetD)
    then have hc: "h \<noteq> CHR '':''" using assms(1) by blast
    have "dropWhile isDigit (dropWhile isUpper (u @ c1 @ rest)) = h # t @ c # cs @ rest"
      by (simp only: du' dd Cons append_Cons)
    then show ?thesis using hc by (rule rangePattern_rest)
  qed
qed

lemma substituteRanges_context:
  assumes "columnText c1" "rowText r1" "columnText c2" "rowText r2"
    and "CHR '':'' \<notin> set pre" "pre = [] \<or> \<not> isUpper (last pre)"
    and "post = [] \<or> \<not> isDigit (hd post)"
  shows "substituteRanges rt e sheetName (pre @ (c1 @ r1 @ '':'' @ c2 @ r2) @ post) =
           pre @ jsonNumbers rt (evaluateRange e (c1 @ r1) (c2 @ r2) sheetName) @
           substituteRanges rt e sheetName post"
proof -
  let ?tok = "c1 @ r1 @ '':'' @ c2 @ r2"
  let ?f = "\<lambda>g. jsonNumbers rt (evaluateRange e (g ! 0 @ g ! 1) (g ! 2 @ g ! 3) sheetName)"
  let ?prev = "if pre = [] then None else Some (last pre)"
  have none: "rangePattern prev' (drop k pre @ ?tok @ post) = None"
    if "k < length pre" for prev' k
  proof -
    have 1: "drop k pre \<noteq> []" using that by simp
    have 2: "last (drop k pre) = last pre" using that by simp
    have 3: "CHR '':'' \<notin> set (drop k pre)" using assms(5) by (meson in_set_dropD)
    have "pre \<noteq> []" using that by auto
    then have 4: "\<not> isUpper (last (drop k pre))" using assms(6) 2 by simp
    have "rangePattern prev' (drop k pre @ c1 @ (r1 @ '':'' @ c2 @ r2 @ post)) = None"
      using 3 1 4 assms(1) by (rule rangePattern_before)
    then show ?thesis by simp
  qed
  have a: "gsub rangePattern ?f None (pre @ ?tok @ post) =
             pre @ gsub rangePattern ?f ?prev (?tok @ post)"
    by (rule gsub_skip) (rule none)
  have ne: "?tok \<noteq> []" by simp
  have b: "gsub rangePattern ?f ?prev (?tok @ post) =
             ?f [c1, r1, c2, r2] @ gsub rangePattern ?f (Some (last ?tok)) post"
    using rangePattern_token [OF assms(1-4) assms(7)] ne by (rule gsub_match)
  have c: "gsub rangePattern ?f (Some (last ?tok)) post = gsub rangePattern ?f None post"
    by (rule gsub_prev_cong) (rule rangePattern_prev)
  show ?thesis unfolding substituteRanges_def a b c by simp
qed

subsection \<open>The list of a range in the later passes\<close>

lemma bracket_plain:
  "\<not> isSheetChar (CHR ''['')" "\<not> isSheetChar (CHR '']'')"
  "\<not> isWordChar (CHR ''['')" "\<not> isWordChar (CHR '']'')"
  by (simp_all add: isSheetChar_def isWordChar_def isUpper_def isLower_def isDigit_def)

lemma sheetChar_word: "\<not> isSheetChar x \<Longrightarrow> \<not> isWordChar x"
  by (simp add: isSheetChar_def)

lemma wordChar_cell: "\<not> isWordChar x \<Longrightarrow> \<not> isUpper x \<and> \<not> isDigit x"
  by (simp add: isWordChar_def)

lemma qualifiedPattern_stop:
  assumes "\<not> isSheetChar x" "x \<noteq> CHR ''!''"
  shows "qualifiedPattern prev (s @ x # t) = qualifiedPattern prev s"
proof -
  have ux: "\<not> isUpper x" "\<not> isDigit x"
    using assms(1) sheetChar_word wordChar_cell by blast+
  have tw: "takeWhile isSheetChar (s @ x # t) = takeWhile isSheetChar s"
    using assms(1) by (rule takeWhile_stop)
  have dw: "dropWhile isSheetChar (s @ x # t) = dropWhile isSheetChar s @ x # t"
    using assms(1) by (rule dropWhile_stop)
  show ?thesis
  proof (cases "dropWhile isSheetChar s")
    case Nil
    show ?thesis unfolding qualifiedPattern_def Let_def tw dw Nil by (simp add: assms(2))
  next
    case (Cons c r')
    have m: "matchCellAt (r' @ x # t) =
               map_option (\<lambda>(col, row, rest). (col, row, rest @ x # t)) (matchCellAt r')"
      using ux by (rule matchCellAt_stop)
    show ?thesis
      by (cases "matchCellAt r'") (auto simp: qualifiedPattern_def Let_def tw dw Cons m)
  qed
qed

lemma qualifiedPattern_prefix:
  assumes "qualifiedPattern prev s = Some (m, g)"
  shows "\<exists>r. s = m @ r"
proof -
  let ?sheet = "takeWhile isSheetChar s"
  from assms obtain r' col row rest where d: "dropWhile isSheetChar s = CHR ''!'' # r'"
    and mc: "matchCellAt r' = Some (col, row, rest)"
    and m: "m = ?sheet @ ''!'' @ col @ row"
    by (auto simp: qualifiedPattern_def Let_def split: if_splits list.splits option.splits)
  have "s = ?sheet @ dropWhile isSheetChar s" by simp
  then have "s = ?sheet @ CHR ''!'' # col @ row @ rest"
    using d matchCellAt_split [OF mc] by simp
  then have "s = m @ rest" by (simp add: m)
  then show ?thesis ..
qed

lemma qualifiedPattern_empty: "qualifiedPattern prev [] = None"
  by (simp add: qualifiedPattern_def)

lemma qualifiedPattern_prev: "qualifiedPattern prev s = qualifiedPattern prev' s"
  by (simp add: qualifiedPattern_def)

lemma barePattern_stop:
  assumes "\<not> isWordChar x"
  shows "barePattern prev (s @ x # t) = barePattern prev s"
proof -
  have m: "matchCellAt (s @ x # t) =
             map_option (\<lambda>(col, row, rest). (col, row, rest @ x # t)) (matchCellAt s)"
    using wordChar_cell [OF assms] by (simp add: matchCellAt_stop)
  show ?thesis
  proof (cases "matchCellAt s")
    case None
    then show ?thesis by (simp add: barePattern_def m)
  next
    case (Some r)
    obtain col row rest where r: "r = (col, row, rest)" by (cases r)
    show ?thesis using assms by (cases rest) (simp_all add: barePattern_def m Some r)
  qed
qed

lemma barePattern_prefix:
  assumes "barePattern prev s = Some (m, g)"
  shows "\<exists>r. s = m @ r"
proof -
  from assms obtain col row rest where mc: "matchCellAt s = Some (col, row, rest)"
    and m: "m = col @ row"
    by (auto simp: barePattern_def split: if_splits option.splits)
  have "s = m @ rest" using matchCellAt_split [OF mc] by (simp add: m)
  then show ?thesis ..
qed

lemma barePattern_empty: "barePattern prev [] = None"
  by (simp add: barePattern_def matchCellAt_def)

lemma barePattern_after: "\<not> isWordChar x \<Longrightarrow> barePattern (Some x) s = barePattern None s"
  by (simp add: barePattern_def)

text \<open>A stretch of text between two characters that end every match, and in which
  nothing matches, is copied; the text before it and the text behind it are scanned as if
  they stood alone.\<close>

lemma gsub_island:
  assumes stopx: "\<And>prev s t. p prev (s @ x # t) = p prev s"
    and stopy: "\<And>prev s t. p prev (s @ y # t) = p prev s"
    and prefix: "\<And>prev s m g. p prev s = Some (m, g) \<Longrightarrow> \<exists>r. s = m @ r"
    and empty: "\<And>prev. p prev [] = None"
    and after: "\<And>s. p (Some y) s = p None s"
    and mid: "\<And>prev u. set u \<subseteq> set mid \<Longrightarrow> p prev u = None"
  shows "gsub p f prev (a @ (x # mid @ [y]) @ b) =
           gsub p f prev a @ (x # mid @ [y]) @ gsub p f None b"
proof -
  have 1: "gsub p f prev (a @ x # mid @ y # b) =
             gsub p f prev a @ x # gsub p f (Some x) (mid @ y # b)"
    by (rule gsub_stop) (rule stopx, erule prefix, rule empty)
  have 2: "gsub p f (Some x) (mid @ y # b) =
             gsub p f (Some x) mid @ y # gsub p f (Some y) b"
    by (rule gsub_stop) (rule stopy, erule prefix, rule empty)
  have 3: "gsub p f (Some x) mid = mid"
    by (rule gsub_none) (erule mid)
  have 4: "gsub p f (Some y) b = gsub p f None b"
    by (rule gsub_prev_cong) (rule after)
  show ?thesis using 1 2 3 4 by simp
qed

lemma substituteQualified_json:
  assumes "numericFmt rt"
  shows "substituteQualified rt e (a @ jsonNumbers rt vs @ b) =
           substituteQualified rt e a @ jsonNumbers rt vs @ substituteQualified rt e b"
proof -
  let ?mid = "intercalate '','' (map (jsonNumber rt) vs)"
  have none: "qualifiedPattern prev u = None" if "set u \<subseteq> set ?mid" for prev u
  proof (rule ccontr)
    assume "qualifiedPattern prev u \<noteq> None"
    then obtain r where "qualifiedPattern prev u = Some r" by blast
    then have "CHR ''!'' \<in> set ?mid" using qualifiedPattern_bang that by blast
    then show False using jsonItems_chars [OF assms] by blast
  qed
  have "gsub qualifiedPattern f prev (a @ (CHR ''['' # ?mid @ [CHR '']'']) @ b) =
          gsub qualifiedPattern f prev a @ (CHR ''['' # ?mid @ [CHR '']'']) @
          gsub qualifiedPattern f None b" for f prev
  proof (rule gsub_island)
    show "qualifiedPattern prev (s @ CHR ''['' # t) = qualifiedPattern prev s" for prev s t
      by (rule qualifiedPattern_stop) (simp_all add: bracket_plain)
    show "qualifiedPattern prev (s @ CHR '']'' # t) = qualifiedPattern prev s" for prev s t
      by (rule qualifiedPattern_stop) (simp_all add: bracket_plain)
    show "\<exists>r. s = m @ r" if "qualifiedPattern prev s = Some (m, g)" for prev s m g
      using that by (rule qualifiedPattern_prefix)
    show "qualifiedPattern prev [] = None" for prev by (rule qualifiedPattern_empty)
    show "qualifiedPattern (Some (CHR '']'')) s = qualifiedPattern None s" for s
      by (rule qualifiedPattern_prev)
    show "qualifiedPattern prev u = None" if "set u \<subseteq> set ?mid" for prev u
      using that by (rule none)
  qed
  then show ?thesis by (simp only: substituteQualified_def jsonNumbers_shape)
qed

lemma substituteBare_json:
  assumes "numericFmt rt"
  shows "substituteBare rt e sheetName (a @ jsonNumbers rt vs @ b) =
           substituteBare rt e sheetName a @ jsonNumbers rt vs @ substituteBare rt e sheetName b"
proof -
  let ?mid = "intercalate '','' (map (jsonNumber rt) vs)"
  have none: "barePattern prev u = None" if "set u \<subseteq> set ?mid" for prev u
  proof (rule ccontr)
    assume "barePattern prev u \<noteq> None"
    then obtain r where "barePattern prev u = Some r" by blast
    then have "\<exists>c \<in> set ?mid. isUpper c" using barePattern_upper that by blast
    then show False using jsonItems_chars [OF assms] by blast
  qed
  have "gsub barePattern f prev (a @ (CHR ''['' # ?mid @ [CHR '']'']) @ b) =
          gsub barePattern f prev a @ (CHR ''['' # ?mid @ [CHR '']'']) @
          gsub barePattern f None b" for f prev
  proof (rule gsub_island)
    show "barePattern prev (s @ CHR ''['' # t) = barePattern prev s" for prev s t
      by (rule barePattern_stop) (simp add: bracket_plain)
    show "barePattern prev (s @ CHR '']'' # t) = barePattern prev s" for prev s t
      by (rule barePattern_stop) (simp add: bracket_plain)
    show "\<exists>r. s = m @ r" if "barePattern prev s = Some (m, g)" for prev s m g
      using that by (rule barePattern_prefix)
    show "barePattern prev [] = None" for prev by (rule barePattern_empty)
    show "barePattern (Some (CHR '']'')) s = barePattern None s" for s
      by (rule barePattern_after) (simp add: bracket_plain)
    show "barePattern prev u = None" if "set u \<subseteq> set ?mid" for prev u
      using that by (rule none)
  qed
  then show ?thesis by (simp only: substituteBare_def jsonNumbers_shape)
qed

lemma substituteReferences_context:
  assumes "columnText c1" "rowText r1" "columnText c2" "rowText r2" "numericFmt rt"
    and "CHR '':'' \<notin> set pre" "pre = [] \<or> \<not> isUpper (last pre)"
    and "post = [] \<or> \<not> isDigit (hd post)"
  shows "substituteReferences rt e sheetName (pre @ (c1 @ r1 @ '':'' @ c2 @ r2) @ post) =
           substituteReferences rt e sheetName pre @
           jsonNumbers rt (evaluateRange e (c1 @ r1) (c2 @ r2) sheetName) @
           substituteReferences rt e sheetName post"
proof -
  have p: "substituteRanges rt e sheetName pre = pre"
    using assms(6) by (rule substituteRanges_id)
  show ?thesis
    unfolding substituteReferences_def
    by (simp only: substituteRanges_context [OF assms(1-4) assms(6-8)]
        substituteQualified_json [OF assms(5)] substituteBare_json [OF assms(5)] p)
qed

subsection \<open>A sheet-qualified reference and a bare reference\<close>

lemma sheetChar_plain: "isSheetChar c \<Longrightarrow> c \<noteq> CHR '':'' \<and> c \<noteq> CHR ''!''"
  unfolding isSheetChar_def isWordChar_def isUpper_def isLower_def isDigit_def
  by simp (elim disjE; simp)

lemma qualifiedPattern_token:
  assumes "sheetText sheet" "columnText col" "rowText row"
  shows "qualifiedPattern prev (sheet @ ''!'' @ col @ row) =
           Some (sheet @ ''!'' @ col @ row, [sheet, col @ row])"
proof -
  have b: "\<not> isSheetChar (CHR ''!'')"
    by (simp add: isSheetChar_def isWordChar_def isUpper_def isLower_def isDigit_def)
  have s: "list_all isSheetChar sheet" "sheet \<noteq> []"
    using assms(1) by (simp_all add: sheetText_def)
  have tw: "takeWhile isSheetChar (sheet @ CHR ''!'' # col @ row) = sheet"
    and dw: "dropWhile isSheetChar (sheet @ CHR ''!'' # col @ row) = CHR ''!'' # col @ row"
    using takeWhile_run [of isSheetChar sheet "CHR ''!'' # col @ row"] s(1) b by simp_all
  have m: "matchCellAt (col @ row) = Some (col, row, [])"
    using matchCellAt_cell [OF assms(2,3), of "[]"] by simp
  show ?thesis by (simp add: qualifiedPattern_def Let_def tw dw m s(2))
qed

lemma substituteQualified_token:
  assumes "sheetText sheet" "columnText col" "rowText row"
  shows "substituteQualified rt e (sheet @ ''!'' @ col @ row) =
           renderValue rt (getCellValue e sheet (col @ row))"
proof -
  have ne: "sheet @ ''!'' @ col @ row \<noteq> []" by simp
  have "gsub qualifiedPattern (\<lambda>g. renderValue rt (getCellValue e (g ! 0) (g ! 1))) None
          (sheet @ ''!'' @ col @ row)
        = renderValue rt (getCellValue e ([sheet, col @ row] ! 0) ([sheet, col @ row] ! 1))"
    using qualifiedPattern_token [OF assms] ne by (rule gsub_whole)
  then show ?thesis by (simp add: substituteQualified_def)
qed

lemma substituteReferences_qualified:
  assumes "sheetText sheet" "columnText col" "rowText row" "numericFmt rt"
    and "getCellValue e sheet (col @ row) = JNum q"
  shows "substituteReferences rt e sheetName (sheet @ ''!'' @ col @ row) = numToString rt q"
proof -
  have "c \<noteq> CHR '':''" if "c \<in> set (sheet @ ''!'' @ col @ row)" for c
  proof -
    have "c \<in> set sheet \<or> c = CHR ''!'' \<or> c \<in> set (col @ row)" using that by auto
    then show ?thesis
    proof (elim disjE)
      assume "c \<in> set sheet"
      then have "isSheetChar c" using assms(1) by (simp add: sheetText_def list_all_iff)
      then show ?thesis using sheetChar_plain by blast
    next
      assume "c = CHR ''!''"
      then show ?thesis by simp
    next
      assume "c \<in> set (col @ row)"
      then show ?thesis using cell_chars [OF assms(2,3)] by blast
    qed
  qed
  then have 1: "substituteRanges rt e sheetName (sheet @ ''!'' @ col @ row) =
                  sheet @ ''!'' @ col @ row"
    by (intro substituteRanges_id) blast
  have 2: "substituteQualified rt e (sheet @ ''!'' @ col @ row) = numToString rt q"
    by (simp only: substituteQualified_token [OF assms(1-3)] assms(5) renderValue.simps)
  have 3: "substituteBare rt e sheetName (numToString rt q) = numToString rt q"
    by (rule substituteBare_id)
       (use numeric_plain [OF numToString_numeric [OF assms(4)]] in blast)
  show ?thesis unfolding substituteReferences_def by (simp only: 1 2 3)
qed

lemma substituteReferences_bare:
  assumes "columnText col" "rowText row"
  shows "substituteReferences rt e sheetName (col @ row) =
           renderValue rt (getCellValue e sheetName (col @ row))"
proof -
  have 1: "substituteRanges rt e sheetName (col @ row) = col @ row"
    by (rule substituteRanges_id) (use cell_chars [OF assms] in blast)
  have 2: "substituteQualified rt e (col @ row) = col @ row"
    by (rule substituteQualified_id) (use cell_chars [OF assms] in blast)
  show ?thesis
    unfolding substituteReferences_def by (simp only: 1 2 substituteBare_cell [OF assms])
qed

lemma fixedPoint_numeric: "numericText (fixedPoint q)"
proof -
  have 1: "numericText (if q < 0 then ''-'' else [])" by (simp add: numericText_def)
  have 2: "numericText ''.''" by (simp add: numericText_def)
  have 3: "numericText (replicate k (CHR ''0''))" for k
    by (induction k) (simp_all add: numericText_def)
  show ?thesis
    unfolding fixedPoint_def Let_def
    by (simp only: numericText_append 1 2 3 decimal_numeric simp_thms)
qed

lemma numericFmt_rt0: "numericFmt rt0"
  by (simp add: numericFmt_def rt0_def fixedPoint_numeric)

lemma columnText_C: "columnText ''C''"
  by (simp add: columnText_def isUpper_def)

lemma rowText_10: "rowText ''10''"
  by (simp add: rowText_def isDigit_def)

lemma rowText_12: "rowText ''12''"
  by (simp add: rowText_def isDigit_def)

text \<open>
  Claim C7, as amended. Reference substitution runs in a fixed order: range tokens, then
  sheet-qualified references, then bare references. Consequently a range token (column
  letters and row digits on both sides of a colon) that the scan for ranges meets, in a
  formula text \<open>pre @ token @ post\<close> whose part before the token holds no colon and does
  not end in a column letter and whose part behind it does not begin with a digit, is
  replaced as a whole by the list of its values; the two later passes leave that list as
  it is and resolve the text before it and the text behind it on their own, so that
  neither end of the token is resolved as a bare reference. A sheet-qualified reference
  to a cell holding a number is resolved to that number of the named sheet, and a bare
  reference to the value read under the current sheet. (The end rows of the ranges of the
  text are below \<open>2^53\<close>, and the runtime prints numbers with digits, sign, point and
  exponent mark only.)
\<close>

theorem ranges_resolved_first:
  assumes "columnText c1" "rowText r1" "columnText c2" "rowText r2" "numericFmt rt"
    and "CHR '':'' \<notin> set pre" "pre = [] \<or> \<not> isUpper (last pre)"
    and "post = [] \<or> \<not> isDigit (hd post)"
    and "boundedRanges (pre @ (c1 @ r1 @ '':'' @ c2 @ r2) @ post)"
  shows "substituteReferences rt e sheetName (pre @ (c1 @ r1 @ '':'' @ c2 @ r2) @ post) =
           substituteReferences rt e sheetName pre @
           jsonNumbers rt (evaluateRange e (c1 @ r1) (c2 @ r2) sheetName) @
           substituteReferences rt e sheetName post \<and>
         (sheetText sheet \<and> getCellValue e sheet (c1 @ r1) = JNum q \<longrightarrow>
            substituteReferences rt e sheetName (sheet @ ''!'' @ c1 @ r1) = numToString rt q) \<and>
         substituteReferences rt e sheetName (c1 @ r1) =
           renderValue rt (getCellValue e sheetName (c1 @ r1))"
proof -
  have a: "substituteReferences rt e sheetName (pre @ (c1 @ r1 @ '':'' @ c2 @ r2) @ post) =
           substituteReferences rt e sheetName pre @
           jsonNumbers rt (evaluateRange e (c1 @ r1) (c2 @ r2) sheetName) @
           substituteReferences rt e sheetName post"
    using assms(1-8) by (rule substituteReferences_context)
  have b: "substituteReferences rt e sheetName (sheet @ ''!'' @ c1 @ r1) = numToString rt q"
    if "sheetText sheet" "getCellValue e sheet (c1 @ r1) = JNum q"
    using that(1) assms(1,2,5) that(2) by (rule substituteReferences_qualified)
  have c: "substituteReferences rt e sheetName (c1 @ r1) =
           renderValue rt (getCellValue e sheetName (c1 @ r1))"
    using assms(1,2) by (rule substituteReferences_bare)
  from a b c show ?thesis by blast
qed

theorem ranges_resolved_first_witness:
  "substituteReferences rt0 rangeEngine ''wc'' ''SUM(C10:C12)'' = ''SUM([5,15])''"
proof -
  have 1: "CHR '':'' \<notin> set ''SUM(''" by simp
  have 2: "''SUM('' = [] \<or> \<not> isUpper (last ''SUM('')" by (simp add: isUpper_def)
  have 3: "'')'' = [] \<or> \<not> isDigit (hd '')'')" by (simp add: isDigit_def)
  have 4: "boundedRanges (''SUM('' @ (''C'' @ ''10'' @ '':'' @ ''C'' @ ''12'') @ '')'')"
    by code_simp
  have "substituteReferences rt0 rangeEngine ''wc''
          (''SUM('' @ (''C'' @ ''10'' @ '':'' @ ''C'' @ ''12'') @ '')'') =
        substituteReferences rt0 rangeEngine ''wc'' ''SUM('' @
        jsonNumbers rt0 (evaluateRange rangeEngine (''C'' @ ''10'') (''C'' @ ''12'') ''wc'') @
        substituteReferences rt0 rangeEngine ''wc'' '')''"
    using ranges_resolved_first [OF columnText_C rowText_10 columnText_C rowText_12
        numericFmt_rt0 1 2 3 4]
    by (rule conjunct1)
  moreover have "substituteReferences rt0 rangeEngine ''wc'' ''SUM('' = ''SUM(''" by code_simp
  moreover have "jsonNumbers rt0 (evaluateRange rangeEngine (''C'' @ ''10'') (''C'' @ ''12'') ''wc'')
                   = ''[5,15]''"
    by code_simp
  moreover have "substituteReferences rt0 rangeEngine ''wc'' '')'' = '')''" by code_simp
  ultimately show ?thesis by simp
qed

text \<open>A range written with absolute references matches no range token, and in a chain
  of two colons the scan takes the first two references as the token: the remaining ends
  are resolved as bare references.\<close>

theorem range_ends_resolved_bare_counterexample:
  "substituteReferences rt0 rangeEngine ''wc'' ''$C10:$C12'' = ''$5:$15'' \<and>
   substituteReferences rt0 rangeEngine ''wc'' ''C9:C10:C12'' = ''[0,5]:15''"
  by code_simp

text \<open>Had the bare references been substituted first, a range token would have become
  two values around a colon, and a sheet-qualified reference the name of its sheet
  followed by a value of the current sheet.\<close>

lemma bare_first_would_split:
  "substituteBare rt0 rangeEngine ''wc'' ''C10:C12'' = ''5:15'' \<and>
   substituteBare rt0 rangeEngine ''wc'' ''plbs!C10'' = ''plbs!5''"
  by code_simp

section \<open>Range expansion\<close>

text \<open>
  Claim C6, as amended. Expanding a range whose end row is below \<open>2^53\<close> yields, in row
  order, the numeric values read for the rows from the start row to the end row in the
  start cell's column. The value read for a row is the one stored under the current
  sheet's name and the cell; when there is none, the one stored under the bare cell
  address, which is the value that any sheet wrote to that address last; and \<open>0\<close> when
  there is none either, so that an absent cell contributes \<open>0\<close>. A value read that is not
  numeric is skipped. Over the cells \<open>5\<close>, \<open>"abc"\<close>, \<open>15\<close> of the current sheet
  \<open>SUM(C10:C12)\<close> evaluates to \<open>20\<close>.
\<close>

theorem range_expansion:
  assumes "columnText col" "rowText row" "columnText col'" "rowText row'"
    and "exactRow (parseInt row')"
  shows "evaluateRange e (col @ row) (col' @ row') sheetName =
           filter isNumeric
             (map (\<lambda>r. case calculatedCells e (cellKey sheetName (col @ decimal r)) of
                          Some v \<Rightarrow> v
                        | None \<Rightarrow> (case calculatedCells e (col @ decimal r) of
                                     Some v \<Rightarrow> v
                                   | None \<Rightarrow> JNum 0))
                [parseInt row..<Suc (parseInt row')]) \<and>
         fst (evaluateFormula rt0 rangeEngine ''SUM(C10:C12)'' ''wc'' ''D1'') = JNum 20"
proof -
  have "fst (evaluateFormula rt0 rangeEngine ''SUM(C10:C12)'' ''wc'' ''D1'') = JNum 20"
    by code_simp
  moreover have "evaluateRange e (col @ row) (col' @ row') sheetName =
           numbersOf (map (\<lambda>r. getCellValue e sheetName (col @ decimal r))
                        [parseInt row..<Suc (parseInt row')])"
    using assms(1-4) by (rule evaluateRange_cells)
  ultimately show ?thesis by (simp add: numbersOf_def getCellValue_def)
qed

theorem range_expansion_witness:
  "evaluateRange rangeEngine ''C10'' ''C12'' ''wc'' = [JNum 5, JNum 15]"
proof -
  let ?read = "\<lambda>r. case calculatedCells rangeEngine (cellKey ''wc'' (''C'' @ decimal r)) of
                      Some v \<Rightarrow> v
                    | None \<Rightarrow> (case calculatedCells rangeEngine (''C'' @ decimal r) of
                                 Some v \<Rightarrow> v
                               | None \<Rightarrow> JNum 0)"
  have x: "exactRow (parseInt ''12'')" by code_simp
  have "evaluateRange rangeEngine (''C'' @ ''10'') (''C'' @ ''12'') ''wc'' =
          filter isNumeric (map ?read [parseInt ''10''..<Suc (parseInt ''12'')])"
    using range_expansion [OF columnText_C rowText_10 columnText_C rowText_12 x]
    by (rule conjunct1)
  moreover have "filter isNumeric (map ?read [parseInt ''10''..<Suc (parseInt ''12'')]) =
                   [JNum 5, JNum 15]"
    by code_simp
  ultimately show ?thesis by simp
qed

text \<open>With nothing stored on sheet \<open>wc\<close> and \<open>40\<close> stored at \<open>C11\<close> by sheet \<open>plbs\<close>, the
  range \<open>C10:C12\<close> expanded on \<open>wc\<close> is \<open>[0, 40, 0]\<close>: a value of another sheet between
  two absent cells.\<close>

theorem range_reads_other_sheet_counterexample:
  "evaluateRange otherSheetEngine ''C10'' ''C12'' ''wc'' = [JNum 0, JNum 40, JNum 0]"
  by code_simp

section \<open>The evaluator\<close>


lemma getCellValue_processing [simp]:
  "getCellValue (e\<lparr> processing := P \<rparr>) = getCellValue e"
  by (rule ext, rule ext) (simp add: getCellValue_def split: option.splits)

lemma evaluateRange_processing [simp]:
  "evaluateRange (e\<lparr> processing := P \<rparr>) = evaluateRange e"
  by (rule ext, rule ext, rule ext)
     (simp add: evaluateRange_def rangeLoop_eq split: option.splits)

lemma rewriteFormula_processing [simp]:
  "rewriteFormula rt (e\<lparr> processing := P \<rparr>) sheetName txt = rewriteFormula rt e sheetName txt"
  by (simp add: rewriteFormula_def substituteReferences_def substituteRanges_def
      substituteQualified_def substituteBare_def)

lemma evaluateFormula_guarded:
  "cellKey sheetName cell \<in> processing e \<Longrightarrow>
     evaluateFormula rt e txt sheetName cell = (JNum 0, e)"
  by (simp add: evaluateFormula_def evaluateFormula_try_def)

lemma evaluateFormula_unguarded:
  assumes "cellKey sheetName cell \<notin> processing e"
  shows "evaluateFormula rt e txt sheetName cell =
           ((case rt_eval rt (rewriteFormula rt e sheetName txt) of
               Inl err \<Rightarrow> JNum 0 | Inr v \<Rightarrow> v), e)"
proof -
  have "insert (cellKey sheetName cell) (processing e) - {cellKey sheetName cell} = processing e"
    using assms by auto
  then show ?thesis
    using assms
    by (simp add: evaluateFormula_def evaluateFormula_try_def Let_def split: sum.splits)
qed

lemma evaluateFormula_engine: "snd (evaluateFormula rt e txt sheetName cell) = e"
  by (cases "cellKey sheetName cell \<in> processing e")
     (simp_all add: evaluateFormula_guarded evaluateFormula_unguarded)


lemma calculateFormulas_Cons:
  "calculateFormulas rt sheetName (fd # fds) e =
     calculateFormulas rt sheetName fds
       (setCellValue e sheetName (fcell fd)
          (fst (evaluateFormula rt e (formula fd) sheetName (fcell fd))))"
  using evaluateFormula_engine [of rt e "formula fd" sheetName "fcell fd"]
  by (simp add: split_beta)

lemma processing_calculateFormulas [simp]:
  "processing (calculateFormulas rt sheetName fds e) = processing e"
  by (induction fds arbitrary: e) (simp_all add: calculateFormulas_Cons del: calculateFormulas.simps(2))

lemma calculateSheet_cases:
  obtains (absent) "map_of (sheets wb) name = None" "calculateSheet rt wb e name = (None, e)"
  | (listless) sheet where "map_of (sheets wb) name = Some sheet" "formulas sheet = None"
      "calculateSheet rt wb e name = (Some TypeError, e)"
  | (listed) sheet fds where "map_of (sheets wb) name = Some sheet" "formulas sheet = Some fds"
      "calculateSheet rt wb e name = (None, calculateFormulas rt name fds e)"
proof (cases "map_of (sheets wb) name")
  case None
  then show ?thesis using absent by (simp add: calculateSheet_def)
next
  case (Some sheet)
  show ?thesis
  proof (cases "formulas sheet")
    case None
    then show ?thesis using listless Some by (simp add: calculateSheet_def)
  next
    case fds: (Some fds)
    then show ?thesis using listed Some by (simp add: calculateSheet_def)
  qed
qed

lemma processing_calculateSheet [simp]:
  "processing (snd (calculateSheet rt wb e name)) = processing e"
  by (cases rule: calculateSheet_cases [of wb name rt e]) simp_all

lemma calculateSheets_Cons:
  "calculateSheets rt wb (name # names) e =
     (if fst (calculateSheet rt wb e name) = None
      then calculateSheets rt wb names (snd (calculateSheet rt wb e name))
      else calculateSheet rt wb e name)"
  by (cases "calculateSheet rt wb e name") (auto split: option.splits)

lemma processing_calculateSheets [simp]:
  "processing (snd (calculateSheets rt wb names e)) = processing e"
  by (induction names arbitrary: e)
     (simp_all add: calculateSheets_Cons del: calculateSheets.simps(2))









section \<open>Self-reference and cycles\<close>

lemma rewriteFormula_self:
  assumes "columnText col" "rowText row" "getCellValue e sheetName (col @ row) = JNum 0"
  shows "rewriteFormula rt e sheetName (col @ row) = ''0''"
proof -
  have 1: "substituteRanges rt e sheetName (col @ row) = col @ row"
    by (rule substituteRanges_id) (use cell_chars [OF assms(1,2)] in blast)
  have 2: "substituteQualified rt e (col @ row) = col @ row"
    by (rule substituteQualified_id) (use cell_chars [OF assms(1,2)] in blast)
  have 3: "substituteBare rt e sheetName (col @ row) = ''0''"
    by (simp add: substituteBare_cell [OF assms(1,2)] assms(3) numToString_0)
  have 4: "qualifyFunctions ''0'' = ''0''"
    by (rule qualifyFunctions_id) simp
  show ?thesis
    unfolding rewriteFormula_def substituteReferences_def by (simp only: 1 2 3 4)
qed

text \<open>
  The guard set is empty at every call of \<open>evaluateFormula\<close> that \<open>calculateAll\<close> makes:
  nothing in the evaluation of a formula calls \<open>evaluateFormula\<close> again, and every call
  leaves the set as it found it. With an empty guard set the branch for a circular
  reference is not taken, and the result is the value of the rewritten text.
\<close>

lemma guard_never_held:
  assumes "processing e = {}"
  shows "evaluateFormula rt e txt sheetName cell =
           ((case rt_eval rt (rewriteFormula rt e sheetName txt) of
               Inl err \<Rightarrow> JNum 0 | Inr v \<Rightarrow> v), e)"
    and "processing (snd (calculateAll rt wb e)) = {}"
proof -
  have "cellKey sheetName cell \<notin> processing e" using assms by simp
  then show "evaluateFormula rt e txt sheetName cell =
           ((case rt_eval rt (rewriteFormula rt e sheetName txt) of
               Inl err \<Rightarrow> JNum 0 | Inr v \<Rightarrow> v), e)"
    by (rule evaluateFormula_unguarded)
  show "processing (snd (calculateAll rt wb e)) = {}"
    using assms by (simp add: calculateAll_def)
qed

text \<open>
  Claim C1. A formula whose text refers to its own cell, directly or through a two-cell
  cycle, is to resolve to \<open>0\<close>; the engine keeps the set \<open>processing\<close> and tests it at the
  head of \<open>evaluateFormula\<close> to that end. The test never succeeds, and such a cell
  resolves to the value of its rewritten text instead: run on an empty store, the formula
  \<open>A1+1\<close> at \<open>wc!A1\<close> resolves to \<open>1\<close>, and in the cycle \<open>A1 = B1+1\<close>, \<open>B1 = A1+1\<close> of
  sheet \<open>wc\<close> the two cells resolve to \<open>1\<close> and \<open>2\<close>.
\<close>

theorem circular_reference_undetected:
  "getCellValue (snd (execute rt0 selfWorkbook [])) ''wc'' ''A1'' = JNum 1 \<and>
   getCellValue (snd (execute rt0 cycleWorkbook [])) ''wc'' ''A1'' = JNum 1 \<and>
   getCellValue (snd (execute rt0 cycleWorkbook [])) ''wc'' ''B1'' = JNum 2"
  by code_simp

section \<open>Failures of a single formula\<close>




text \<open>The formula with the ill-formed text resolves to \<open>0\<close>, and the formula after it is
  evaluated with that \<open>0\<close>. On a sheet without a \<open>formulas\<close> list the loop of
  \<open>calculateSheet\<close> throws, and the exception leaves \<open>execute\<close>.\<close>

lemma broken_formula_run:
  "getCellValue (snd (execute rt0 brokenWorkbook [])) ''wc'' ''A1'' = JNum 0 \<and>
   getCellValue (snd (execute rt0 brokenWorkbook [])) ''wc'' ''B1'' = JNum 2"
  by code_simp

lemma listless_sheet_run: "fst (execute rt0 listlessWorkbook []) = Some TypeError"
  by code_simp

section \<open>Static values and sheet order\<close>












lemma order_workbook_run:
  "getCellValue (snd (execute rt0 orderWorkbook [])) ''wc'' ''D2'' = JNum 0 \<and>
   getCellValue (snd (execute rt0 orderWorkbook [])) ''wc'' ''D3'' = JNum 7"
  by code_simp

section \<open>What the store holds\<close>









end
